theory Spec2Isabelle
  imports Complex_Main
begin

section \<open>Batch assembly for directional message passing (mol/dimenet/loader.py)\<close>

text \<open>
  The development embeds \<^verbatim>\<open>AtomsCollate.__call__\<close> and the helpers it calls.
  Index arrays are lists of naturals; a Python exception is a value \<open>Inl e\<close>. The
  sparse matrices of scipy are modelled by their compressed-sparse-row arrays, and each
  scipy operation the source calls is a function on those arrays.

  Array elements are real numbers and \<open>pair_dist\<close>, \<open>arr_add\<close> and \<open>random_rotate\<close>
  compute exactly. The program computes in float64: a sum or a norm is rounded, a square
  may underflow to 0, an integer above \<open>2 ^ 53\<close> is rounded when it meets a float, and a
  coordinate may be NaN or infinite. The exact functions are used to run the call on
  fixed inputs where float64 gives the same tests and the same stored sums: the values
  are small integers and halves, the sums are sums with 0 or of small integers, and the
  distances (0, 1, 2 and about 5) are far from the cutoff they are compared with. The general
  theorem on the edges of one structure does not use them: it is stated for
  \<open>adjacency_fl\<close>, where the computed test \<^verbatim>\<open>D <= cutoff\<close> is a parameter, and
  none of the general theorems of the last section gives the value of a rounded sum.

  A list of examples is modelled twice. \<open>collate_data\<close> takes the dicts as values, which
  is the call on a list of distinct dict objects; \<open>collate_objs\<close> takes an object store
  and a list of addresses, so that one dict may be listed more than once, and updates
  the store as the source updates the caller's dicts.
\<close>

subsection \<open>Exceptions\<close>

datatype error = KeyError | IndexError | ValueError | TypeError

definition bindE :: "error + 'a \<Rightarrow> ('a \<Rightarrow> error + 'b) \<Rightarrow> error + 'b" where
  "bindE m f = (case m of Inl e \<Rightarrow> Inl e | Inr x \<Rightarrow> f x)"

fun mapE :: "('a \<Rightarrow> error + 'b) \<Rightarrow> 'a list \<Rightarrow> error + 'b list" where
  "mapE f [] = Inr []"
| "mapE f (x # xs) = bindE (f x) (\<lambda>y. bindE (mapE f xs) (\<lambda>ys. Inr (y # ys)))"

subsection \<open>Arrays and dictionaries\<close>

text \<open>
  A numpy array is its dtype (floating or integral), its shape and its elements in
  row-major order. A Python dict is an association list in insertion order.
\<close>

datatype dtype = DFloat | DInt

datatype ndarray = NDArray (dtype_of: dtype) (shape: "nat list") (flat: "real list")

type_synonym example = "(string \<times> ndarray) list"

definition dict_get :: "(string \<times> 'v) list \<Rightarrow> string \<Rightarrow> error + 'v" where
  "dict_get d k = (case map_of d k of None \<Rightarrow> Inl KeyError | Some v \<Rightarrow> Inr v)"

fun dict_set :: "(string \<times> 'v) list \<Rightarrow> string \<Rightarrow> 'v \<Rightarrow> (string \<times> 'v) list" where
  "dict_set [] k v = [(k, v)]"
| "dict_set ((k', v') # d) k v =
     (if k' = k then (k, v) # d else (k', v') # dict_set d k v)"

text \<open>\<^verbatim>\<open>len(a)\<close>: the first dimension; a 0-d array has no length.\<close>

definition len_arr :: "ndarray \<Rightarrow> error + nat" where
  "len_arr a = (case shape a of [] \<Rightarrow> Inl TypeError | n # _ \<Rightarrow> Inr n)"

text \<open>\<^verbatim>\<open>a.reshape(-1, 3)\<close>: the element count must be a multiple of 3.\<close>

definition reshape_m1_3 :: "ndarray \<Rightarrow> error + ndarray" where
  "reshape_m1_3 a =
     (if length (flat a) mod 3 = 0
      then Inr (NDArray (dtype_of a) [length (flat a) div 3, 3] (flat a))
      else Inl ValueError)"

text \<open>\<^verbatim>\<open>np.concatenate\<close> along axis 0, \<^verbatim>\<open>np.atleast_1d\<close>, and \<^verbatim>\<open>_concat\<close>.
  \<^verbatim>\<open>np.hstack\<close> is reached only when the first array has fewer than two dimensions,
  where it is \<^verbatim>\<open>np.concatenate\<close> of the \<^verbatim>\<open>atleast_1d\<close> arrays along axis 0.\<close>

definition np_concatenate :: "ndarray list \<Rightarrow> error + ndarray" where
  "np_concatenate arrs =
     (case arrs of
        [] \<Rightarrow> Inl ValueError
      | a # _ \<Rightarrow>
          if shape a = [] \<or> (\<exists>b \<in> set arrs. length (shape b) \<noteq> length (shape a) \<or> tl (shape b) \<noteq> tl (shape a))
          then Inl ValueError
          else Inr (NDArray (if \<exists>b \<in> set arrs. dtype_of b = DFloat then DFloat else DInt)
                      (sum_list (map (\<lambda>b. hd (shape b)) arrs) # tl (shape a))
                      (concat (map flat arrs))))"

definition atleast_1d :: "ndarray \<Rightarrow> ndarray" where
  "atleast_1d a = (if shape a = [] then NDArray (dtype_of a) [1] (flat a) else a)"

definition concat_stack :: "ndarray list \<Rightarrow> error + ndarray" where
  "concat_stack to_stack =
     (case to_stack of
        [] \<Rightarrow> Inl IndexError
      | a # _ \<Rightarrow>
          if length (shape a) \<ge> 2 then np_concatenate to_stack
          else np_concatenate (map atleast_1d to_stack))"

subsection \<open>\<^verbatim>\<open>_restore_shape\<close>\<close>

text \<open>The loop writes the reshaped array back into each input dict.\<close>

definition restore_one :: "example \<Rightarrow> error + example" where
  "restore_one d =
     bindE (dict_get d ''R'') (\<lambda>r.
     bindE (reshape_m1_3 r) (\<lambda>r'.
     Inr (dict_set d ''R'' r')))"

definition restore_shape :: "example list \<Rightarrow> error + example list" where
  "restore_shape data = mapE restore_one data"

subsection \<open>Random augmentation\<close>

text \<open>
  The process-wide generator of \<^verbatim>\<open>np.random\<close> is an explicit state: a tape of
  standard normal draws and the position of the next draw.
  \<^verbatim>\<open>multivariate_normal\<close> with mean 0 and covariance \<open>m\<close> times the identity is
  modelled as the draws scaled by \<open>sqrt m\<close>. \<^verbatim>\<open>rand_rotation_matrix\<close> belongs to
  another package; it is a parameter \<open>rrm\<close> that reads the generator and returns a 3x3
  matrix.
\<close>

record rng =
  tape :: "nat \<Rightarrow> real"
  pos :: nat

definition standard_normal :: "nat \<Rightarrow> rng \<Rightarrow> real list \<times> rng" where
  "standard_normal n g = (map (tape g) [pos g ..< pos g + n], g\<lparr>pos := pos g + n\<rparr>)"

definition get_rand_norm_3d :: "nat \<Rightarrow> real \<Rightarrow> rng \<Rightarrow> ndarray \<times> rng" where
  "get_rand_norm_3d n m g =
     (case standard_normal (n * 3) g of
        (z, g') \<Rightarrow> (NDArray DFloat [n, 3] (map (\<lambda>x. sqrt m * x) z), g'))"

definition random_rotate :: "(rng \<Rightarrow> real list list \<times> rng) \<Rightarrow> ndarray \<Rightarrow> rng \<Rightarrow> ndarray \<times> rng" where
  "random_rotate rrm coords g =
     (let n = length (flat coords) div 3;
          center = map (\<lambda>c. (\<Sum>i\<leftarrow>[0..<n]. flat coords ! (3 * i + c)) / real n) [0..<3]
      in case rrm g of
           (M, g') \<Rightarrow>
             (NDArray DFloat [n, 3]
                (concat (map (\<lambda>i. map (\<lambda>j. \<Sum>c\<leftarrow>[0..<3]. (flat coords ! (3 * i + c) - center ! c) * (M ! c ! j)) [0..<3]) [0..<n])),
              g'))"

text \<open>\<^verbatim>\<open>R + deltas\<close>, for two arrays of one shape (the noise is drawn with one row
  per row of \<open>R\<close>); the sum is a floating array. The sum is exact here; float64 rounds
  it, and rounds an integer \<open>R\<close> above \<open>2 ^ 53\<close> before adding. The two agree when one
  summand is 0 and the other a float64 value, and on the small integers of the examples.\<close>

definition arr_add :: "ndarray \<Rightarrow> ndarray \<Rightarrow> ndarray" where
  "arr_add a b = NDArray DFloat (shape a) (map (\<lambda>(x, y). x + y) (zip (flat a) (flat b)))"

text \<open>One round of the first loop of \<^verbatim>\<open>__call__\<close>, and the loop.\<close>

definition augment_one ::
  "(rng \<Rightarrow> real list list \<times> rng) \<Rightarrow> bool \<Rightarrow> real \<Rightarrow> example \<Rightarrow> rng \<Rightarrow> error + (example \<times> rng)" where
  "augment_one rrm rot cov e g =
     bindE (if rot
            then bindE (dict_get e ''R'') (\<lambda>r.
                   case random_rotate rrm r g of (r', g1) \<Rightarrow> Inr (dict_set e ''R'' r', g1))
            else Inr (e, g)) (\<lambda>(e1, g1).
     bindE (dict_get e1 ''R'') (\<lambda>R.
     bindE (len_arr R) (\<lambda>n.
       case get_rand_norm_3d n cov g1 of
         (deltas, g2) \<Rightarrow>
           Inr (dict_set (dict_set e1 ''R_orig'' R) ''R'' (arr_add R deltas), g2))))"

fun augment ::
  "(rng \<Rightarrow> real list list \<times> rng) \<Rightarrow> bool \<Rightarrow> real \<Rightarrow> example list \<Rightarrow> rng \<Rightarrow> error + (example list \<times> rng)" where
  "augment rrm rot cov [] g = Inr ([], g)"
| "augment rrm rot cov (e # es) g =
     bindE (augment_one rrm rot cov e g) (\<lambda>(e', g1).
     bindE (augment rrm rot cov es g1) (\<lambda>(es', g2).
     Inr (e' # es', g2)))"

subsection \<open>Field concatenation\<close>

definition concat_fields :: "example list \<Rightarrow> error + (string \<times> ndarray) list" where
  "concat_fields examples =
     (case examples of
        [] \<Rightarrow> Inl IndexError
      | e0 # _ \<Rightarrow>
          mapE (\<lambda>k. bindE (mapE (\<lambda>e. dict_get e k) examples) (\<lambda>to_stack.
                    bindE (concat_stack to_stack) (\<lambda>v. Inr (k, v))))
               (map fst e0))"

subsection \<open>Sparse matrices in CSR form\<close>

record 'a csr =
  data :: "'a list"
  indices :: "nat list"
  indptr :: "nat list"
  nrows :: nat
  ncols :: nat

fun cumsum_from :: "nat \<Rightarrow> nat list \<Rightarrow> nat list" where
  "cumsum_from a [] = []"
| "cumsum_from a (x # xs) = (a + x) # cumsum_from (a + x) xs"

definition cumsum :: "nat list \<Rightarrow> nat list" where
  "cumsum xs = cumsum_from 0 xs"

text \<open>\<^verbatim>\<open>mat.nnz\<close> of a CSR matrix is the last row pointer.\<close>

definition nnz :: "'a csr \<Rightarrow> nat" where
  "nnz A = last (indptr A)"

text \<open>The stored column indices and the stored values of row \<open>r\<close>.\<close>

definition csr_row :: "'a csr \<Rightarrow> nat \<Rightarrow> nat list" where
  "csr_row A r = take (indptr A ! Suc r - indptr A ! r) (drop (indptr A ! r) (indices A))"

definition csr_data_row :: "'a csr \<Rightarrow> nat \<Rightarrow> 'a list" where
  "csr_data_row A r = take (indptr A ! Suc r - indptr A ! r) (drop (indptr A ! r) (data A))"

text \<open>\<^verbatim>\<open>sp.csr_matrix(M)\<close> of a dense boolean matrix: the True entries, row by row.\<close>

definition csr_matrix_dense :: "bool list list \<Rightarrow> nat \<Rightarrow> bool csr" where
  "csr_matrix_dense M nc =
     (let rows = map (\<lambda>row. filter (\<lambda>j. row ! j) [0..<length row]) M
      in \<lparr>data = replicate (length (concat rows)) True,
          indices = concat rows,
          indptr = 0 # cumsum (map length rows),
          nrows = length M,
          ncols = nc\<rparr>)"

text \<open>The dense value of a boolean CSR matrix at row \<open>r\<close>, column \<open>c\<close>.\<close>

definition csr_get :: "bool csr \<Rightarrow> nat \<Rightarrow> nat \<Rightarrow> bool" where
  "csr_get A r c = ((c, True) \<in> set (zip (csr_row A r) (csr_data_row A r)))"

definition eye :: "nat \<Rightarrow> bool list list" where
  "eye n = map (\<lambda>r. map (\<lambda>c. r = c) [0..<n]) [0..<n]"

text \<open>
  \<^verbatim>\<open>A -= sp.eye(n, dtype=bool)\<close>: the in-place operator falls back to \<^verbatim>\<open>A - B\<close>,
  which needs operands of one shape (ValueError otherwise). For boolean matrices scipy
  subtracts the two 0/1 values entry by entry and keeps every entry whose difference is
  not zero: True - True leaves no entry, True - False and False - True leave True. So
  the result is True exactly where the operands differ. The second argument is the size
  \<open>n\<close> of the identity.
\<close>

definition csr_sub_bool :: "bool csr \<Rightarrow> nat \<Rightarrow> error + bool csr" where
  "csr_sub_bool A n =
     (if (nrows A, ncols A) \<noteq> (n, n) then Inl ValueError
      else Inr (csr_matrix_dense
                  (map (\<lambda>r. map (\<lambda>c. csr_get A r c \<noteq> eye n ! r ! c) [0..<n]) [0..<n]) n))"

text \<open>
  \<^verbatim>\<open>sp.csr_matrix((data, indices, indptr), shape=...)\<close>. Without a shape the
  constructor infers it: one row per row pointer but the first, and one column more than
  the largest column index, which fails when there is no index. Then it checks the row
  pointers against the index and data arrays and prunes what lies beyond the last pointer.
\<close>

definition csr_matrix :: "'a list \<Rightarrow> nat list \<Rightarrow> nat list \<Rightarrow> (nat \<times> nat) option \<Rightarrow> error + 'a csr" where
  "csr_matrix d i p shp =
     bindE (case shp of
              Some s \<Rightarrow> Inr s
            | None \<Rightarrow> if i = [] \<or> p = [] then Inl ValueError
                      else Inr (length p - 1, Max (set i) + 1)) (\<lambda>(M, N).
       if length p \<noteq> M + 1 \<or> p ! 0 \<noteq> 0 \<or> length i \<noteq> length d \<or> last p > length i
       then Inl ValueError
       else Inr \<lparr>data = take (last p) d, indices = take (last p) i, indptr = p,
                 nrows = M, ncols = N\<rparr>)"

subsection \<open>\<^verbatim>\<open>_bmat_fast\<close>\<close>

definition bmat_fast :: "bool csr list \<Rightarrow> error + bool csr" where
  "bmat_fast mats =
     (if mats = [] then Inl ValueError
      else
        let new_data = concat (map data mats);
            ind_offset = 0 # cumsum (map nrows mats);
            new_indices = concat (map (\<lambda>i. map (\<lambda>c. c + ind_offset ! i) (indices (mats ! i)))
                                      [0..<length mats]);
            indptr_offset = 0 # cumsum (map nnz mats);
            new_indptr = concat (map (\<lambda>i. map (\<lambda>p. p + indptr_offset ! i)
                                               (drop (if i \<ge> 1 then 1 else 0) (indptr (mats ! i))))
                                     [0..<length mats])
        in csr_matrix new_data new_indices new_indptr None)"

subsection \<open>Per-structure adjacency\<close>

definition pair_dist :: "ndarray \<Rightarrow> nat \<Rightarrow> nat \<Rightarrow> real" where
  "pair_dist R i j = sqrt (\<Sum>c\<leftarrow>[0..<3]. (flat R ! (3 * i + c) - flat R ! (3 * j + c))\<^sup>2)"

definition within_cutoff :: "ndarray \<Rightarrow> real \<Rightarrow> nat \<Rightarrow> bool list list" where
  "within_cutoff R cutoff n = map (\<lambda>i. map (\<lambda>j. pair_dist R i j \<le> cutoff) [0..<n]) [0..<n]"

text \<open>One round of the second loop of \<^verbatim>\<open>__call__\<close>.\<close>

definition adjacency :: "real \<Rightarrow> example \<Rightarrow> error + bool csr" where
  "adjacency cutoff e =
     bindE (dict_get e ''R'') (\<lambda>R.
     bindE (len_arr R) (\<lambda>n.
     bindE (dict_get e ''Z'') (\<lambda>Z.
     bindE (len_arr Z) (\<lambda>nz.
       csr_sub_bool (csr_matrix_dense (within_cutoff R cutoff n) n) nz))))"



definition exact_le :: "real list \<Rightarrow> real list \<Rightarrow> real \<Rightarrow> bool" where
  "exact_le a b c \<longleftrightarrow> sqrt (\<Sum>k\<leftarrow>[0..<3]. (a ! k - b ! k)\<^sup>2) \<le> c"

subsection \<open>Edges and triplets\<close>

text \<open>\<^verbatim>\<open>tocoo().row\<close>: the row of every stored entry; \<^verbatim>\<open>nonzero()\<close>: rows and
  columns of the stored entries whose value is not zero.\<close>

definition expandptr :: "nat \<Rightarrow> nat list \<Rightarrow> nat list" where
  "expandptr M p = concat (map (\<lambda>r. replicate (p ! Suc r - p ! r) r) [0..<M])"

definition tocoo_row :: "'a csr \<Rightarrow> nat list" where
  "tocoo_row A = expandptr (nrows A) (indptr A)"

definition nonzero :: "bool csr \<Rightarrow> nat list \<times> nat list" where
  "nonzero A =
     (let rc = filter (\<lambda>(r, c, v). v) (zip (tocoo_row A) (zip (indices A) (data A)))
      in (map fst rc, map (\<lambda>(r, c, v). c) rc))"

text \<open>\<^verbatim>\<open>A[idx]\<close> with an index array: the rows of \<open>A\<close> named by \<open>idx\<close>, in that order.\<close>

definition major_index_fancy :: "'a csr \<Rightarrow> nat list \<Rightarrow> error + 'a csr" where
  "major_index_fancy A idx =
     (if \<exists>r \<in> set idx. r \<ge> nrows A then Inl IndexError
      else Inr \<lparr>data = concat (map (csr_data_row A) idx),
                indices = concat (map (csr_row A) idx),
                indptr = 0 # cumsum (map (\<lambda>r. indptr A ! Suc r - indptr A ! r) idx),
                nrows = length idx,
                ncols = ncols A\<rparr>)"

text \<open>\<^verbatim>\<open>A.sum(1).A1\<close> of a boolean matrix counts the True values of each row.\<close>

definition sum1 :: "bool csr \<Rightarrow> nat list" where
  "sum1 A = map (\<lambda>r. length (filter (\<lambda>v. v) (csr_data_row A r))) [0..<nrows A]"

text \<open>\<^verbatim>\<open>np.repeat(a, counts)\<close>. The source calls it with one count per element: the
  counts are the row sums of a matrix with one row per edge, and one atom count per
  example.\<close>

definition np_repeat :: "'a list \<Rightarrow> nat list \<Rightarrow> 'a list" where
  "np_repeat a counts = concat (map (\<lambda>(x, c). replicate c x) (zip a counts))"

record graph =
  idnb_i :: "nat list"
  idnb_j :: "nat list"
  id3dnb_i :: "nat list"
  id3dnb_j :: "nat list"
  id3dnb_k :: "nat list"
  id_expand_kj :: "nat list"
  id_reduce_ji :: "nat list"

text \<open>
  Lines 145 to 170 of the source, from the merged adjacency matrix on. The comparison
  \<^verbatim>\<open>id3ynb_i != id3ynb_k\<close> needs arrays of one length, and an index array may only
  name positions the indexed array has; the model raises where numpy would.
\<close>

definition graph_indices :: "bool csr \<Rightarrow> error + graph" where
  "graph_indices adj_matrix =
     bindE (csr_matrix [0..<nnz adj_matrix] (indices adj_matrix) (indptr adj_matrix)
              (Some (nrows adj_matrix, ncols adj_matrix))) (\<lambda>atomids_to_edgeid.
     case nonzero adj_matrix of
       (edgeid_to_target, edgeid_to_source) \<Rightarrow>
         bindE (major_index_fancy adj_matrix edgeid_to_source) (\<lambda>adj_rows.
         bindE (major_index_fancy atomids_to_edgeid edgeid_to_source) (\<lambda>edge_rows.
           let ntriplets = sum1 adj_rows;
               id3ynb_i = np_repeat edgeid_to_target ntriplets;
               id3ynb_j = np_repeat edgeid_to_source ntriplets;
               id3ynb_k = snd (nonzero adj_rows);
               id3_y_to_d = filter (\<lambda>t. id3ynb_i ! t \<noteq> id3ynb_k ! t) [0..<length id3ynb_i]
           in if length id3ynb_k \<noteq> length id3ynb_i then Inl ValueError
              else if \<exists>t \<in> set id3_y_to_d.
                        t \<ge> length id3ynb_j \<or> t \<ge> length (data edge_rows) \<or>
                        t \<ge> length (tocoo_row edge_rows)
              then Inl IndexError
              else Inr \<lparr>idnb_i = edgeid_to_target,
                         idnb_j = edgeid_to_source,
                         id3dnb_i = map (\<lambda>t. id3ynb_i ! t) id3_y_to_d,
                         id3dnb_j = map (\<lambda>t. id3ynb_j ! t) id3_y_to_d,
                         id3dnb_k = map (\<lambda>t. id3ynb_k ! t) id3_y_to_d,
                         id_expand_kj = map (\<lambda>t. data edge_rows ! t) id3_y_to_d,
                         id_reduce_ji = map (\<lambda>t. tocoo_row edge_rows ! t) id3_y_to_d\<rparr>)))"

subsection \<open>\<^verbatim>\<open>AtomsCollate.__call__\<close>\<close>

record AtomsCollate =
  cutoff :: real
  rand_cov :: real
  rotate :: bool

record batch =
  example_fields :: "(string \<times> ndarray) list"
  graph :: graph
  batch_seg :: "nat list"

text \<open>
  The dict \<^verbatim>\<open>data\<close> before \<^verbatim>\<open>post_fn\<close>: the concatenated fields of the examples,
  the index arrays and the segment array. The function also returns the examples as the
  call leaves them (it updates the input dicts in place) and the generator state.
\<close>

definition collate_data ::
  "(rng \<Rightarrow> real list list \<times> rng) \<Rightarrow> AtomsCollate \<Rightarrow> example list \<Rightarrow> rng
     \<Rightarrow> error + (batch \<times> example list \<times> rng)" where
  "collate_data rrm self examples g =
     bindE (restore_shape examples) (\<lambda>ex1.
     bindE (augment rrm (rotate self) (rand_cov self) ex1 g) (\<lambda>(ex2, g').
     bindE (concat_fields ex2) (\<lambda>flds.
     bindE (mapE (adjacency (cutoff self)) ex2) (\<lambda>adj_matrices.
     bindE (bmat_fast adj_matrices) (\<lambda>adj_matrix.
     bindE (graph_indices adj_matrix) (\<lambda>gr.
     bindE (mapE (\<lambda>e. bindE (dict_get e ''Z'') len_arr) ex2) (\<lambda>N.
       Inr (\<lparr>example_fields = flds, graph = gr, batch_seg = np_repeat [0..<length ex2] N\<rparr>,
            ex2, g'))))))))"

text \<open>The part of \<^verbatim>\<open>__call__\<close> after the first loop (lines 132 to 173), on the
  examples as that loop leaves them.\<close>

definition assemble :: "real \<Rightarrow> example list \<Rightarrow> error + batch" where
  "assemble c ex2 =
     bindE (concat_fields ex2) (\<lambda>flds.
     bindE (mapE (adjacency c) ex2) (\<lambda>adj_matrices.
     bindE (bmat_fast adj_matrices) (\<lambda>adj_matrix.
     bindE (graph_indices adj_matrix) (\<lambda>gr.
     bindE (mapE (\<lambda>e. bindE (dict_get e ''Z'') len_arr) ex2) (\<lambda>N.
       Inr \<lparr>example_fields = flds, graph = gr, batch_seg = np_repeat [0..<length ex2] N\<rparr>)))))"

text \<open>The returned dict: every entry of \<^verbatim>\<open>data\<close> but \<^verbatim>\<open>name\<close>, through
  \<^verbatim>\<open>post_fn\<close>. A computed array replaces an example field of the same name.\<close>

definition int_array :: "nat list \<Rightarrow> ndarray" where
  "int_array xs = NDArray DInt [length xs] (map real xs)"

definition data_items :: "batch \<Rightarrow> (string \<times> ndarray) list" where
  "data_items b =
     fold (\<lambda>(k, v) d. dict_set d k (int_array v))
       [(''idnb_i'', idnb_i (graph b)), (''idnb_j'', idnb_j (graph b)),
        (''id3dnb_i'', id3dnb_i (graph b)), (''id3dnb_j'', id3dnb_j (graph b)),
        (''id3dnb_k'', id3dnb_k (graph b)), (''id_expand_kj'', id_expand_kj (graph b)),
        (''id_reduce_ji'', id_reduce_ji (graph b)), (''batch_seg'', batch_seg b)]
       (example_fields b)"

definition AtomsCollate_call ::
  "(ndarray \<Rightarrow> 'b) \<Rightarrow> (rng \<Rightarrow> real list list \<times> rng) \<Rightarrow> AtomsCollate \<Rightarrow> example list \<Rightarrow> rng
     \<Rightarrow> error + ((string \<times> 'b) list \<times> example list \<times> rng)" where
  "AtomsCollate_call post_fn rrm self examples g =
     bindE (collate_data rrm self examples g) (\<lambda>(b, exs, g').
       Inr (map (\<lambda>(k, v). (k, post_fn v)) (filter (\<lambda>(k, v). k \<noteq> ''name'') (data_items b)),
            exs, g'))"

subsection \<open>The call on dict objects\<close>

text \<open>
  \<^verbatim>\<open>_restore_shape\<close> and the first loop of \<^verbatim>\<open>__call__\<close> assign into the dicts the
  caller passed. Here the dicts live in a store \<open>objs\<close> from addresses to dicts, and the
  argument \<^verbatim>\<open>examples\<close> is a list of addresses, in which an address may occur more
  than once. Each round of a loop reads the dict at its address and writes the updated
  dict back, so a round on a dict that is listed twice sees what the earlier round
  wrote. The rest of the call reads the dicts through the list. \<open>write_back\<close> stores a
  list of dicts at a list of addresses.
\<close>

fun restore_shape_objs :: "(nat \<Rightarrow> example) \<Rightarrow> nat list \<Rightarrow> error + (nat \<Rightarrow> example)" where
  "restore_shape_objs objs [] = Inr objs"
| "restore_shape_objs objs (a # as) =
     bindE (restore_one (objs a)) (\<lambda>d. restore_shape_objs (objs(a := d)) as)"

fun augment_objs ::
  "(rng \<Rightarrow> real list list \<times> rng) \<Rightarrow> bool \<Rightarrow> real \<Rightarrow> (nat \<Rightarrow> example) \<Rightarrow> nat list \<Rightarrow> rng
     \<Rightarrow> error + ((nat \<Rightarrow> example) \<times> rng)" where
  "augment_objs rrm rot cov objs [] g = Inr (objs, g)"
| "augment_objs rrm rot cov objs (a # as) g =
     bindE (augment_one rrm rot cov (objs a) g) (\<lambda>(d, g1).
       augment_objs rrm rot cov (objs(a := d)) as g1)"

definition collate_objs ::
  "(rng \<Rightarrow> real list list \<times> rng) \<Rightarrow> AtomsCollate \<Rightarrow> (nat \<Rightarrow> example) \<Rightarrow> nat list \<Rightarrow> rng
     \<Rightarrow> error + (batch \<times> (nat \<Rightarrow> example) \<times> rng)" where
  "collate_objs rrm self objs examples g =
     bindE (restore_shape_objs objs examples) (\<lambda>objs1.
     bindE (augment_objs rrm (rotate self) (rand_cov self) objs1 examples g) (\<lambda>(objs2, g').
     bindE (assemble (cutoff self) (map objs2 examples)) (\<lambda>b.
       Inr (b, objs2, g'))))"

fun write_back :: "(nat \<Rightarrow> example) \<Rightarrow> nat list \<Rightarrow> example list \<Rightarrow> (nat \<Rightarrow> example)" where
  "write_back objs (a # as) (d # ds) = write_back (objs(a := d)) as ds"
| "write_back objs _ _ = objs"

subsection \<open>Well-formed adjacency matrices and the table of candidate triplets\<close>

text \<open>
  \<open>adj_ok A lens\<close>: the row pointers of \<open>A\<close> are the running sums of the row lengths
  \<open>lens\<close>, the index and data arrays have one entry per stored element, and every stored
  value is True. \<open>triplet_table p S\<close> lists, for every edge \<open>e\<close> with source \<open>S ! e\<close>, the
  positions \<open>q\<close> of the stored entries of row \<open>S ! e\<close>: one pair per candidate triplet.
\<close>

definition adj_ok :: "bool csr \<Rightarrow> nat list \<Rightarrow> bool" where
  "adj_ok A lens \<longleftrightarrow>
     indptr A = 0 # cumsum lens \<and> length lens = nrows A \<and>
     length (indices A) = sum_list lens \<and> length (data A) = sum_list lens \<and>
     set (data A) \<subseteq> {True}"

definition triplet_table :: "nat list \<Rightarrow> nat list \<Rightarrow> (nat \<times> nat) list" where
  "triplet_table p S =
     concat (map (\<lambda>e. map (\<lambda>q. (e, q)) [p ! (S ! e) ..< p ! Suc (S ! e)]) [0..<length S])"

subsection \<open>The local rank of an edge\<close>

text \<open>
  The rank of edge \<open>e\<close> among the edges that share its source atom, counted in edge order:
  the number of earlier edges with the same source. The source program does not compute
  it; the statement that \<^verbatim>\<open>id_reduce_ji\<close> holds this rank is compared with the code below.
\<close>

definition local_rank :: "nat list \<Rightarrow> nat \<Rightarrow> nat" where
  "local_rank src e = length (filter (\<lambda>e'. src ! e' = src ! e) [0..<e])"

subsection \<open>Example inputs\<close>

text \<open>A generator state with draws 1, 2, 3, ..., a rotation source that returns the
  identity, and the configuration without augmentation.\<close>

definition rng0 :: rng where
  "rng0 = \<lparr>tape = (\<lambda>n. real n + 1), pos = 0\<rparr>"

definition identity_rotation :: "rng \<Rightarrow> real list list \<times> rng" where
  "identity_rotation g = ([[1, 0, 0], [0, 1, 0], [0, 0, 1]], g)"

definition no_augment :: "real \<Rightarrow> AtomsCollate" where
  "no_augment c = \<lparr>cutoff = c, rand_cov = 0, rotate = False\<rparr>"

text \<open>Three atoms at the corners of an equilateral triangle of side 1, as the flat
  array a table row holds; the same record after a call; the batch the call returns.\<close>

definition triangle_R :: ndarray where
  "triangle_R = NDArray DFloat [3, 3] [0, 0, 0, 1, 0, 0, 1 / 2, sqrt 3 / 2, 0]"

definition triangle :: example where
  "triangle = [(''R'', NDArray DFloat [9] [0, 0, 0, 1, 0, 0, 1 / 2, sqrt 3 / 2, 0]),
               (''Z'', NDArray DInt [3] [8, 1, 1])]"

definition triangle_after :: example where
  "triangle_after = [(''R'', triangle_R), (''Z'', NDArray DInt [3] [8, 1, 1]),
                     (''R_orig'', triangle_R)]"

definition triangle_graph :: graph where
  "triangle_graph =
     \<lparr>idnb_i = [0, 0, 1, 1, 2, 2], idnb_j = [1, 2, 0, 2, 0, 1],
      id3dnb_i = [0, 0, 1, 1, 2, 2], id3dnb_j = [1, 2, 0, 2, 0, 1],
      id3dnb_k = [2, 1, 2, 0, 1, 0], id_expand_kj = [3, 5, 1, 4, 0, 2],
      id_reduce_ji = [0, 1, 2, 3, 4, 5]\<rparr>"

definition triangle_batch :: batch where
  "triangle_batch =
     \<lparr>example_fields = [(''R'', triangle_R), (''Z'', NDArray DInt [3] [8, 1, 1]),
                         (''R_orig'', triangle_R)],
      graph = triangle_graph,
      batch_seg = [0, 0, 0]\<rparr>"

subsection \<open>Edges of one structure\<close>


subsection \<open>The reference block-diagonal matrix\<close>

text \<open>
  The block-diagonal matrix of a list of matrices as the claim on \<^verbatim>\<open>_bmat_fast\<close>
  describes it: the rows of matrix \<open>b\<close> follow those of the matrices before it, its
  columns are shifted by their column count, and the shape is the sum of the row counts by
  the sum of the column counts. It is built from the dense values, not from the code.
\<close>

definition block_rows :: "nat \<Rightarrow> bool csr \<Rightarrow> nat \<Rightarrow> bool list list" where
  "block_rows off m w =
     map (\<lambda>r. map (\<lambda>c. off \<le> c \<and> c < off + ncols m \<and> csr_get m r (c - off)) [0..<w])
         [0..<nrows m]"

fun block_diag_dense :: "nat \<Rightarrow> bool csr list \<Rightarrow> nat \<Rightarrow> bool list list" where
  "block_diag_dense off [] w = []"
| "block_diag_dense off (m # ms) w =
     block_rows off m w @ block_diag_dense (off + ncols m) ms w"

definition bmat_reference :: "bool csr list \<Rightarrow> bool csr" where
  "bmat_reference mats =
     csr_matrix_dense (block_diag_dense 0 mats (sum_list (map ncols mats)))
       (sum_list (map ncols mats))"

subsection \<open>More example inputs\<close>

text \<open>One atom at the origin (as read, and as a call leaves it); two atoms at the same
  position; the adjacency matrices of two atoms within the cutoff, of one atom, and of
  three atoms of which the last is out of reach of the others.\<close>

definition single_atom_R :: ndarray where
  "single_atom_R = NDArray DFloat [1, 3] [0, 0, 0]"

definition single_atom :: example where
  "single_atom = [(''R'', NDArray DFloat [3] [0, 0, 0]), (''Z'', NDArray DInt [1] [8])]"

definition single_atom_after :: example where
  "single_atom_after = [(''R'', single_atom_R), (''Z'', NDArray DInt [1] [8]),
                        (''R_orig'', single_atom_R)]"

definition coincident_pair :: example where
  "coincident_pair = [(''R'', NDArray DFloat [2, 3] [0, 0, 0, 0, 0, 0]),
                      (''Z'', NDArray DInt [2] [1, 1])]"

definition coincident_adj :: "bool csr" where
  "coincident_adj = \<lparr>data = [True, True], indices = [1, 0], indptr = [0, 1, 2],
                      nrows = 2, ncols = 2\<rparr>"

definition lonely_adj :: "bool csr" where
  "lonely_adj = \<lparr>data = [], indices = [], indptr = [0, 0], nrows = 1, ncols = 1\<rparr>"

definition self_loop_adj :: "bool csr" where
  "self_loop_adj = \<lparr>data = [True], indices = [0], indptr = [0, 1], nrows = 1, ncols = 1\<rparr>"

definition isolated_third_adj :: "bool csr" where
  "isolated_third_adj = \<lparr>data = [True, True], indices = [1, 0], indptr = [0, 1, 2, 2],
                           nrows = 3, ncols = 3\<rparr>"

subsection \<open>Inputs with noise and with an empty structure\<close>

text \<open>
  A configuration with unit noise and a wide cutoff; the arrays, records and batches of
  two atoms at the origin under the first six and the next six draws of \<open>rng0\<close>; a
  structure with no atom, the record a call leaves for it, its 0 by 0 adjacency matrix,
  and the fields of the batch of the empty structure and the pair.
\<close>

definition noisy :: AtomsCollate where
  "noisy = \<lparr>cutoff = 100, rand_cov = 1, rotate = False\<rparr>"

definition pair_graph :: graph where
  "pair_graph = \<lparr>idnb_i = [0, 1], idnb_j = [1, 0], id3dnb_i = [], id3dnb_j = [], id3dnb_k = [],
                  id_expand_kj = [], id_reduce_ji = []\<rparr>"

definition pair_Z :: ndarray where
  "pair_Z = NDArray DInt [2] [1, 1]"

definition pair_zeros :: ndarray where
  "pair_zeros = NDArray DFloat [2, 3] [0, 0, 0, 0, 0, 0]"

definition noisy_R1 :: ndarray where
  "noisy_R1 = NDArray DFloat [2, 3] [1, 2, 3, 4, 5, 6]"

definition noisy_R2 :: ndarray where
  "noisy_R2 = NDArray DFloat [2, 3] [7, 8, 9, 10, 11, 12]"

definition pair_after :: "ndarray \<Rightarrow> example" where
  "pair_after R = [(''R'', R), (''Z'', pair_Z), (''R_orig'', pair_zeros)]"

definition pair_batch :: "ndarray \<Rightarrow> batch" where
  "pair_batch R = \<lparr>example_fields = pair_after R, graph = pair_graph, batch_seg = [0, 0]\<rparr>"

definition empty_structure :: example where
  "empty_structure = [(''R'', NDArray DFloat [0] []), (''Z'', NDArray DInt [0] [])]"

definition empty_after :: example where
  "empty_after = [(''R'', NDArray DFloat [0, 3] []), (''Z'', NDArray DInt [0] []),
                  (''R_orig'', NDArray DFloat [0, 3] [])]"

definition empty_adj :: "bool csr" where
  "empty_adj = \<lparr>data = [], indices = [], indptr = [0], nrows = 0, ncols = 0\<rparr>"

definition mixed_fields :: "(string \<times> ndarray) list" where
  "mixed_fields = [(''R'', pair_zeros), (''Z'', pair_Z), (''R_orig'', pair_zeros)]"

subsection \<open>Inputs with rotation and with a dict listed twice\<close>

text \<open>
  A rotation source that draws one number from the generator and returns the identity
  when it is below 4 and the half turn about the z axis otherwise (the source of
  \<^verbatim>\<open>rand_rotation_matrix\<close> is not part of this file; this is one function it could
  be); a configuration with rotation and without noise; two atoms 2 apart on the x axis,
  and what the call makes of them under either matrix; the dict of two atoms at the
  origin after two rounds of unit noise.
\<close>

definition drawn_rotation :: "rng \<Rightarrow> real list list \<times> rng" where
  "drawn_rotation g =
     (if tape g (pos g) < 4 then [[1, 0, 0], [0, 1, 0], [0, 0, 1]]
      else [[- 1, 0, 0], [0, - 1, 0], [0, 0, 1]],
      g\<lparr>pos := pos g + 1\<rparr>)"

definition rotating :: AtomsCollate where
  "rotating = \<lparr>cutoff = 100, rand_cov = 0, rotate = True\<rparr>"

definition spread_pair :: example where
  "spread_pair = [(''R'', NDArray DFloat [2, 3] [0, 0, 0, 2, 0, 0]), (''Z'', pair_Z)]"

definition turned_R1 :: ndarray where
  "turned_R1 = NDArray DFloat [2, 3] [- 1, 0, 0, 1, 0, 0]"

definition turned_R2 :: ndarray where
  "turned_R2 = NDArray DFloat [2, 3] [1, 0, 0, - 1, 0, 0]"

definition turned_after :: "ndarray \<Rightarrow> example" where
  "turned_after R = [(''R'', R), (''Z'', pair_Z), (''R_orig'', R)]"

definition turned_batch :: "ndarray \<Rightarrow> batch" where
  "turned_batch R = \<lparr>example_fields = turned_after R, graph = pair_graph, batch_seg = [0, 0]\<rparr>"

definition twice_noisy :: example where
  "twice_noisy = [(''R'', NDArray DFloat [2, 3] [8, 10, 12, 14, 16, 18]), (''Z'', pair_Z),
                  (''R_orig'', noisy_R1)]"

subsection \<open>The arrays of \<^verbatim>\<open>_bmat_fast\<close>, matrix by matrix\<close>

text \<open>
  The column indices and the row pointers that \<^verbatim>\<open>_bmat_fast\<close> concatenates, written
  by recursion over the list of matrices with the running offsets as arguments. The first
  matrix keeps its leading row pointer, the others drop it.
\<close>

fun shifted_indices :: "nat \<Rightarrow> 'a csr list \<Rightarrow> nat list" where
  "shifted_indices off [] = []"
| "shifted_indices off (m # ms) = map (\<lambda>c. c + off) (indices m) @ shifted_indices (off + nrows m) ms"

fun shifted_indptr :: "bool \<Rightarrow> nat \<Rightarrow> 'a csr list \<Rightarrow> nat list" where
  "shifted_indptr first off [] = []"
| "shifted_indptr first off (m # ms) =
     map (\<lambda>p. p + off) (drop (if first then 0 else 1) (indptr m)) @ shifted_indptr False (off + nnz m) ms"

section \<open>Auxiliary facts\<close>

lemma bindE_Inl [simp]: "bindE (Inl e) f = Inl e"
  by (simp add: bindE_def)

lemma bindE_Inr [simp]: "bindE (Inr x) f = f x"
  by (simp add: bindE_def)

lemma bindE_eq_Inr: "bindE m f = Inr y \<longleftrightarrow> (\<exists>x. m = Inr x \<and> f x = Inr y)"
  by (cases m) simp_all

lemma length_cumsum_from [simp]: "length (cumsum_from a xs) = length xs"
  by (induction xs arbitrary: a) simp_all

lemma length_cumsum [simp]: "length (cumsum xs) = length xs"
  by (simp add: cumsum_def)

lemma cumsum_from_nth: "i < length xs \<Longrightarrow> cumsum_from a xs ! i = a + sum_list (take (Suc i) xs)"
proof (induction xs arbitrary: a i)
  case Nil
  then show ?case by simp
next
  case (Cons x xs)
  then show ?case by (cases i) simp_all
qed

lemma ptr_nth: "i \<le> length xs \<Longrightarrow> (0 # cumsum xs) ! i = sum_list (take i xs)"
  by (cases i) (simp_all add: cumsum_def cumsum_from_nth)

lemma ptr_last: "last (0 # cumsum xs) = sum_list xs"
proof -
  have "last (0 # cumsum xs) = (0 # cumsum xs) ! (length (0 # cumsum xs) - 1)"
    by (rule last_conv_nth) simp
  then have "last (0 # cumsum xs) = (0 # cumsum xs) ! length xs"
    by simp
  then show ?thesis by (simp only: ptr_nth [of "length xs" xs, simplified])
qed

lemma ptr_Suc: "r < length xs \<Longrightarrow> (0 # cumsum xs) ! Suc r = (0 # cumsum xs) ! r + xs ! r"
  using ptr_nth [of "Suc r" xs] ptr_nth [of r xs]
  by (simp add: take_Suc_conv_app_nth)

lemma ptr_diff: "r < length xs \<Longrightarrow> (0 # cumsum xs) ! Suc r - (0 # cumsum xs) ! r = xs ! r"
  using ptr_Suc [of r xs] by simp

lemma sum_list_take_le: "sum_list (take i xs) \<le> sum_list (xs::nat list)"
proof -
  have "sum_list xs = sum_list (take i xs) + sum_list (drop i xs)"
    by (metis append_take_drop_id sum_list_append)
  then show ?thesis by simp
qed

lemma ptr_le_total: "r \<le> length xs \<Longrightarrow> (0 # cumsum xs) ! r \<le> sum_list xs"
  by (simp add: ptr_nth sum_list_take_le)

lemma cumsum_from_append:
  "cumsum_from a (xs @ ys) = cumsum_from a xs @ cumsum_from (a + sum_list xs) ys"
  by (induction xs arbitrary: a) (simp_all add: add.assoc)

lemma cumsum_from_shift: "cumsum_from (a + b) xs = map (\<lambda>p. p + b) (cumsum_from a xs)"
proof (induction xs arbitrary: a)
  case Nil
  then show ?case by simp
next
  case (Cons x xs)
  have eq: "a + b + x = (a + x) + b" by simp
  show ?case using Cons [of "a + x"] by (simp add: eq)
qed

lemma cumsum_append: "cumsum (xs @ ys) = cumsum xs @ map (\<lambda>p. p + sum_list xs) (cumsum ys)"
  using cumsum_from_shift [of 0 "sum_list xs" ys]
  by (simp add: cumsum_def cumsum_from_append)

lemma concat_slice:
  "e < length xss \<Longrightarrow>
   take (length (xss ! e)) (drop (sum_list (map length (take e xss))) (concat xss)) = xss ! e"
proof (induction xss arbitrary: e)
  case Nil
  then show ?case by simp
next
  case (Cons xs xss)
  then show ?case by (cases e) simp_all
qed

lemma take_drop_nth_map: "m + n \<le> length xs \<Longrightarrow> take n (drop m xs) = map (\<lambda>p. xs ! p) [m..<m + n]"
  by (simp add: list_eq_iff_nth_eq)

lemma expandptr_ptr:
  "expandptr (length lens) (0 # cumsum lens) = concat (map (\<lambda>r. replicate (lens ! r) r) [0..<length lens])"
proof -
  have "map (\<lambda>r. replicate ((0 # cumsum lens) ! Suc r - (0 # cumsum lens) ! r) r) [0..<length lens]
        = map (\<lambda>r. replicate (lens ! r) r) [0..<length lens]"
    by (rule map_cong) (simp_all only: ptr_diff atLeastLessThan_iff set_upt)
  then show ?thesis by (simp only: expandptr_def)
qed

lemma length_expandptr_ptr: "length (expandptr (length lens) (0 # cumsum lens)) = sum_list lens"
proof -
  have "map (\<lambda>r. lens ! r) [0..<length lens] = lens" by (rule map_nth)
  then show ?thesis
    by (simp add: expandptr_ptr length_concat comp_def)
qed

lemma concat_block_nth:
  "r < length xss \<Longrightarrow> q < length (xss ! r) \<Longrightarrow>
   concat xss ! (sum_list (map length (take r xss)) + q) = xss ! r ! q"
proof (induction xss arbitrary: r)
  case Nil
  then show ?case by simp
next
  case (Cons xs xss)
  then show ?case by (cases r) (simp_all add: nth_append add.assoc)
qed

lemma expandptr_nth:
  assumes r: "r < length lens"
    and lo: "(0 # cumsum lens) ! r \<le> p"
    and hi: "p < (0 # cumsum lens) ! Suc r"
  shows "expandptr (length lens) (0 # cumsum lens) ! p = r"
proof -
  let ?xss = "map (\<lambda>r. replicate (lens ! r) r) [0..<length lens]"
  have lens_eq: "map length ?xss = lens"
    by (simp add: comp_def map_nth)
  have off: "sum_list (map length (take r ?xss)) = (0 # cumsum lens) ! r"
    using r by (simp only: take_map [symmetric] lens_eq ptr_nth [of r lens, OF less_imp_le])
  define q where "q = p - (0 # cumsum lens) ! r"
  have q: "q < lens ! r" using lo hi ptr_Suc [OF r] by (simp add: q_def)
  have p: "p = sum_list (map length (take r ?xss)) + q"
    using lo by (simp add: off q_def)
  have "concat ?xss ! p = ?xss ! r ! q"
    unfolding p using r q by (intro concat_block_nth) simp_all
  then show ?thesis using r q by (simp add: expandptr_ptr)
qed


lemma adj_ok_nnz:
  assumes "adj_ok A lens"
  shows "nnz A = sum_list lens"
proof -
  have "indptr A = 0 # cumsum lens" using assms by (simp add: adj_ok_def)
  then show ?thesis by (simp only: nnz_def ptr_last)
qed

lemma adj_ok_atomids:
  assumes "adj_ok A lens"
  shows "csr_matrix [0..<nnz A] (indices A) (indptr A) (Some (nrows A, ncols A))
         = Inr \<lparr>data = [0..<sum_list lens], indices = indices A, indptr = indptr A,
                 nrows = nrows A, ncols = ncols A\<rparr>"
proof -
  have n: "nnz A = sum_list lens" using assms by (rule adj_ok_nnz)
  have l: "last (indptr A) = sum_list lens" using n by (simp add: nnz_def)
  have i: "length (indices A) = sum_list lens" "length (indptr A) = Suc (nrows A)" "indptr A ! 0 = 0"
    using assms by (simp_all add: adj_ok_def)
  show ?thesis
    by (simp add: csr_matrix_def n l i)
qed

lemma adj_ok_tocoo_row_length: "adj_ok A lens \<Longrightarrow> length (tocoo_row A) = sum_list lens"
  using length_expandptr_ptr [of lens] by (simp add: adj_ok_def tocoo_row_def)

lemma filter_zip3_all_True:
  assumes "set D \<subseteq> {True}" "length R = length C" "length D = length C"
  shows "filter (\<lambda>(r, c, v). v) (zip R (zip C D)) = zip R (zip C D)"
proof (rule filter_True)
  show "\<forall>x \<in> set (zip R (zip C D)). case x of (r, c, v) \<Rightarrow> v"
    using assms(1) by (auto dest!: set_zip_rightD)
qed

lemma nonzero_all_True:
  assumes "set (data A) \<subseteq> {True}" "length (tocoo_row A) = length (indices A)"
    "length (data A) = length (indices A)"
  shows "nonzero A = (tocoo_row A, indices A)"
proof -
  have f: "filter (\<lambda>(r, c, v). v) (zip (tocoo_row A) (zip (indices A) (data A)))
           = zip (tocoo_row A) (zip (indices A) (data A))"
    using assms by (intro filter_zip3_all_True) simp_all
  have a: "map fst (zip (tocoo_row A) (zip (indices A) (data A))) = tocoo_row A"
    using assms by simp
  have "map (\<lambda>(r, c, v). c) (zip (tocoo_row A) (zip (indices A) (data A)))
        = map fst (map snd (zip (tocoo_row A) (zip (indices A) (data A))))"
    by (simp add: case_prod_unfold comp_def)
  also have "\<dots> = indices A" using assms by simp
  finally show ?thesis using a by (simp add: nonzero_def f)
qed

lemma adj_ok_nonzero:
  assumes "adj_ok A lens"
  shows "nonzero A = (tocoo_row A, indices A)"
proof (rule nonzero_all_True)
  show "set (data A) \<subseteq> {True}" using assms by (simp add: adj_ok_def)
  show "length (tocoo_row A) = length (indices A)"
    using adj_ok_tocoo_row_length [OF assms] assms by (simp add: adj_ok_def)
  show "length (data A) = length (indices A)" using assms by (simp add: adj_ok_def)
qed

lemma adj_ok_ptr_bound:
  assumes "adj_ok A lens" "r < nrows A"
  shows "indptr A ! Suc r = indptr A ! r + lens ! r" "indptr A ! Suc r \<le> sum_list lens"
proof -
  have r: "r < length lens" and p: "indptr A = 0 # cumsum lens"
    using assms by (simp_all add: adj_ok_def)
  show "indptr A ! Suc r = indptr A ! r + lens ! r"
    unfolding p using r by (rule ptr_Suc)
  show "indptr A ! Suc r \<le> sum_list lens"
    unfolding p using r by (intro ptr_le_total) simp
qed

lemma adj_ok_data_row:
  assumes "adj_ok A lens" "r < nrows A"
  shows "length (csr_data_row A r) = lens ! r" "set (csr_data_row A r) \<subseteq> {True}"
proof -
  note b = adj_ok_ptr_bound [OF assms]
  have d: "length (data A) = sum_list lens" using assms by (simp add: adj_ok_def)
  show "length (csr_data_row A r) = lens ! r"
    using b d by (simp add: csr_data_row_def)
  have "set (csr_data_row A r) \<subseteq> set (data A)"
    unfolding csr_data_row_def
    by (meson set_take_subset set_drop_subset subset_trans)
  then show "set (csr_data_row A r) \<subseteq> {True}"
    using assms by (auto simp: adj_ok_def)
qed

lemma adj_ok_row:
  assumes "adj_ok A lens" "r < nrows A"
  shows "csr_row A r = map (\<lambda>p. indices A ! p) [indptr A ! r ..< indptr A ! Suc r]"
proof -
  note b = adj_ok_ptr_bound [OF assms]
  have d: "length (indices A) = sum_list lens" using assms by (simp add: adj_ok_def)
  have "take (lens ! r) (drop (indptr A ! r) (indices A))
        = map (\<lambda>p. indices A ! p) [indptr A ! r ..< indptr A ! r + lens ! r]"
    using b d by (intro take_drop_nth_map) simp
  then show ?thesis using b by (simp add: csr_row_def)
qed

lemma fancy_slice:
  assumes len: "\<forall>r \<in> set idx. length (f r) = d r" and e: "e < length idx"
  shows "take ((0 # cumsum (map d idx)) ! Suc e - (0 # cumsum (map d idx)) ! e)
           (drop ((0 # cumsum (map d idx)) ! e) (concat (map f idx))) = f (idx ! e)"
proof -
  have m: "map length (map f idx) = map d idx"
    using len by simp
  have a: "(0 # cumsum (map d idx)) ! Suc e - (0 # cumsum (map d idx)) ! e = length (map f idx ! e)"
    using e len ptr_diff [of e "map d idx"] by simp
  have b: "(0 # cumsum (map d idx)) ! e = sum_list (map length (take e (map f idx)))"
    using e by (simp add: ptr_nth take_map [symmetric] m del: map_map)
  show ?thesis
    by (subst a, subst b) (use e concat_slice [of e "map f idx"] in simp)
qed


lemma map_by_index: "map f S = map (\<lambda>e. f (S ! e)) [0..<length S]"
  by (rule nth_equalityI) simp_all

lemma np_repeat_by_index:
  assumes "length X = n"
  shows "np_repeat X (map d [0..<n]) = concat (map (\<lambda>e. replicate (d e) (X ! e)) [0..<n])"
proof -
  have "zip X (map d [0..<n]) = map (\<lambda>e. (X ! e, d e)) [0..<n]"
    using assms by (simp add: list_eq_iff_nth_eq)
  then show ?thesis by (simp add: np_repeat_def comp_def)
qed

lemma table_const:
  "map (\<lambda>(e, q). f e) (triplet_table p S)
   = concat (map (\<lambda>e. replicate (p ! Suc (S ! e) - p ! (S ! e)) (f e)) [0..<length S])"
  by (simp add: triplet_table_def map_concat comp_def map_replicate_const)

lemma table_snd:
  "map (\<lambda>(e, q). f q) (triplet_table p S)
   = concat (map (\<lambda>e. map f [p ! (S ! e) ..< p ! Suc (S ! e)]) [0..<length S])"
  by (simp add: triplet_table_def map_concat comp_def)

lemma adj_ok_row_length:
  assumes "adj_ok A lens" "r < nrows A"
  shows "length (csr_row A r) = indptr A ! Suc r - indptr A ! r"
  by (simp add: adj_ok_row [OF assms])

lemma adj_ok_sum1:
  assumes ok: "adj_ok A lens" and S: "\<forall>r \<in> set S. r < nrows A"
    and X: "X = \<lparr>data = concat (map (csr_data_row A) S), indices = I,
                   indptr = 0 # cumsum (map (\<lambda>r. indptr A ! Suc r - indptr A ! r) S),
                   nrows = length S, ncols = N\<rparr>"
  shows "sum1 X = map (\<lambda>e. indptr A ! Suc (S ! e) - indptr A ! (S ! e)) [0..<length S]"
proof -
  have len: "\<forall>r \<in> set S. length (csr_data_row A r) = indptr A ! Suc r - indptr A ! r"
    using adj_ok_data_row(1) [OF ok] adj_ok_ptr_bound(1) [OF ok] S by simp
  have row: "csr_data_row X e = csr_data_row A (S ! e)" if "e < length S" for e
  proof -
    let ?P = "0 # cumsum (map (\<lambda>r. indptr A ! Suc r - indptr A ! r) S)"
    have "csr_data_row X e = take (?P ! Suc e - ?P ! e) (drop (?P ! e) (concat (map (csr_data_row A) S)))"
      by (simp add: csr_data_row_def X)
    also have "\<dots> = csr_data_row A (S ! e)"
      by (rule fancy_slice [OF len that])
    finally show ?thesis .
  qed
  have cnt: "length (filter (\<lambda>v. v) (csr_data_row X e)) = indptr A ! Suc (S ! e) - indptr A ! (S ! e)"
    if "e < length S" for e
  proof -
    have r: "S ! e < nrows A" using S that by simp
    have "filter (\<lambda>v. v) (csr_data_row A (S ! e)) = csr_data_row A (S ! e)"
      using adj_ok_data_row(2) [OF ok r] by (intro filter_True) auto
    then show ?thesis using row [OF that] len that by simp
  qed
  have "sum1 X = map (\<lambda>e. length (filter (\<lambda>v. v) (csr_data_row X e))) [0..<length S]"
    by (simp add: sum1_def X)
  also have "\<dots> = map (\<lambda>e. indptr A ! Suc (S ! e) - indptr A ! (S ! e)) [0..<length S]"
    by (rule map_cong) (simp_all add: cnt)
  finally show ?thesis .
qed

lemma adj_ok_rows_indices:
  assumes ok: "adj_ok A lens" and S: "\<forall>r \<in> set S. r < nrows A"
  shows "concat (map (csr_row A) S) = map (\<lambda>(e, q). indices A ! q) (triplet_table (indptr A) S)"
proof -
  have "map (csr_row A) S = map (\<lambda>e. csr_row A (S ! e)) [0..<length S]"
    by (rule map_by_index)
  also have "\<dots> = map (\<lambda>e. map (\<lambda>q. indices A ! q) [indptr A ! (S ! e) ..< indptr A ! Suc (S ! e)]) [0..<length S]"
    by (rule map_cong) (use S in \<open>simp_all add: adj_ok_row [OF ok]\<close>)
  finally show ?thesis by (simp add: table_snd)
qed

lemma adj_ok_rows_edgeids:
  assumes ok: "adj_ok A lens" and S: "\<forall>r \<in> set S. r < nrows A"
    and B: "data B = [0..<sum_list lens]" "indptr B = indptr A"
  shows "concat (map (csr_data_row B) S) = map snd (triplet_table (indptr A) S)"
proof -
  have row: "csr_data_row B r = [indptr A ! r ..< indptr A ! Suc r]" if "r < nrows A" for r
  proof -
    note b = adj_ok_ptr_bound [OF ok that]
    have "take (lens ! r) (drop (indptr A ! r) [0..<sum_list lens])
          = map (\<lambda>p. [0..<sum_list lens] ! p) [indptr A ! r ..< indptr A ! r + lens ! r]"
      using b by (intro take_drop_nth_map) simp
    also have "\<dots> = map (\<lambda>p. p) [indptr A ! r ..< indptr A ! r + lens ! r]"
      by (rule map_cong) (use b in simp_all)
    finally show ?thesis using b by (simp add: csr_data_row_def B)
  qed
  have "map (csr_data_row B) S = map (\<lambda>e. csr_data_row B (S ! e)) [0..<length S]"
    by (rule map_by_index)
  also have "\<dots> = map (\<lambda>e. map (\<lambda>q. q) [indptr A ! (S ! e) ..< indptr A ! Suc (S ! e)]) [0..<length S]"
    by (rule map_cong) (use S in \<open>simp_all add: row\<close>)
  finally have "concat (map (csr_data_row B) S) = map (\<lambda>(e, q). q) (triplet_table (indptr A) S)"
    by (simp only: table_snd)
  then show ?thesis by (simp add: case_prod_unfold)
qed

lemma fancy_tocoo_row:
  assumes X: "nrows X = length S" "indptr X = 0 # cumsum (map (\<lambda>r. p ! Suc r - p ! r) S)"
  shows "tocoo_row X = map fst (triplet_table p S)"
proof -
  have "tocoo_row X = expandptr (length S) (0 # cumsum (map (\<lambda>r. p ! Suc r - p ! r) S))"
    by (simp add: tocoo_row_def X)
  also have "\<dots> = concat (map (\<lambda>e. replicate (map (\<lambda>r. p ! Suc r - p ! r) S ! e) e) [0..<length S])"
    using expandptr_ptr [of "map (\<lambda>r. p ! Suc r - p ! r) S"] by simp
  also have "\<dots> = concat (map (\<lambda>e. replicate (p ! Suc (S ! e) - p ! (S ! e)) e) [0..<length S])"
    by (rule arg_cong [where f = concat], rule map_cong) simp_all
  also have "\<dots> = map (\<lambda>(e, q). e) (triplet_table p S)"
    by (simp only: table_const)
  finally show ?thesis by (simp add: case_prod_unfold)
qed


lemma adj_ok_rows_data_length:
  assumes ok: "adj_ok A lens" and S: "\<forall>r \<in> set S. r < nrows A"
  shows "length (concat (map (csr_data_row A) S)) = length (triplet_table (indptr A) S)"
proof -
  have "map (\<lambda>r. length (csr_data_row A r)) S = map (\<lambda>r. indptr A ! Suc r - indptr A ! r) S"
    by (rule map_cong) (use S adj_ok_data_row(1) [OF ok] adj_ok_ptr_bound(1) [OF ok] in simp_all)
  also have "\<dots> = map (\<lambda>e. indptr A ! Suc (S ! e) - indptr A ! (S ! e)) [0..<length S]"
    by (rule map_by_index)
  finally have "map (\<lambda>r. length (csr_data_row A r)) S
                = map (\<lambda>e. indptr A ! Suc (S ! e) - indptr A ! (S ! e)) [0..<length S]" .
  then show ?thesis
    by (simp add: length_concat triplet_table_def comp_def)
qed

lemma graph_indices_char:
  assumes ok: "adj_ok A lens" and g: "graph_indices A = Inr gr"
  defines "E \<equiv> tocoo_row A" and "S \<equiv> indices A"
  defines "T \<equiv> triplet_table (indptr A) (indices A)"
  shows "\<exists>D. (\<forall>t \<in> set D. t < length T \<and> E ! fst (T ! t) \<noteq> S ! snd (T ! t)) \<and>
           gr = \<lparr>idnb_i = E, idnb_j = S,
                  id3dnb_i = map (\<lambda>t. E ! fst (T ! t)) D,
                  id3dnb_j = map (\<lambda>t. S ! fst (T ! t)) D,
                  id3dnb_k = map (\<lambda>t. S ! snd (T ! t)) D,
                  id_expand_kj = map (\<lambda>t. snd (T ! t)) D,
                  id_reduce_ji = map (\<lambda>t. fst (T ! t)) D\<rparr>"
    and "length E = length S" and "\<forall>r \<in> set S. r < nrows A"
proof -
  let ?B = "\<lparr>data = [0..<sum_list lens], indices = indices A, indptr = indptr A,
            nrows = nrows A, ncols = ncols A\<rparr>"
  let ?deg = "\<lambda>r. indptr A ! Suc r - indptr A ! r"
  let ?X1 = "\<lparr>data = concat (map (csr_data_row A) S), indices = concat (map (csr_row A) S),
             indptr = 0 # cumsum (map ?deg S), nrows = length S, ncols = ncols A\<rparr>"
  let ?X2 = "\<lparr>data = concat (map (csr_data_row ?B) S), indices = concat (map (csr_row ?B) S),
             indptr = 0 # cumsum (map ?deg S), nrows = length S, ncols = ncols A\<rparr>"
  let ?I = "map (\<lambda>(e, q). E ! e) T"
  let ?J = "map (\<lambda>(e, q). S ! e) T"
  let ?K = "map (\<lambda>(e, q). S ! q) T"
  show lenE: "length E = length S"
    using adj_ok_tocoo_row_length [OF ok] ok by (simp add: E_def S_def adj_ok_def)
  from g obtain X1 X2 where
    X1: "major_index_fancy A S = Inr X1" and X2: "major_index_fancy ?B S = Inr X2" and
    fin: "(let ntriplets = sum1 X1;
               id3ynb_i = np_repeat E ntriplets;
               id3ynb_j = np_repeat S ntriplets;
               id3ynb_k = snd (nonzero X1);
               id3_y_to_d = filter (\<lambda>t. id3ynb_i ! t \<noteq> id3ynb_k ! t) [0..<length id3ynb_i]
           in if length id3ynb_k \<noteq> length id3ynb_i then Inl ValueError
              else if \<exists>t \<in> set id3_y_to_d.
                        t \<ge> length id3ynb_j \<or> t \<ge> length (data X2) \<or>
                        t \<ge> length (tocoo_row X2)
              then Inl IndexError
              else Inr \<lparr>idnb_i = E, idnb_j = S,
                         id3dnb_i = map (\<lambda>t. id3ynb_i ! t) id3_y_to_d,
                         id3dnb_j = map (\<lambda>t. id3ynb_j ! t) id3_y_to_d,
                         id3dnb_k = map (\<lambda>t. id3ynb_k ! t) id3_y_to_d,
                         id_expand_kj = map (\<lambda>t. data X2 ! t) id3_y_to_d,
                         id_reduce_ji = map (\<lambda>t. tocoo_row X2 ! t) id3_y_to_d\<rparr>) = Inr gr"
    unfolding graph_indices_def adj_ok_atomids [OF ok] adj_ok_nonzero [OF ok] bindE_Inr prod.case
      E_def S_def
    by (auto simp only: bindE_eq_Inr)
  show inS: "\<forall>r \<in> set S. r < nrows A"
    using X1 by (auto simp: major_index_fancy_def split: if_splits)
  have X1_eq: "X1 = ?X1"
    using X1 by (auto simp: major_index_fancy_def split: if_splits)
  have X2_eq: "X2 = ?X2"
    using X2 by (auto simp: major_index_fancy_def split: if_splits)
  have nt: "sum1 ?X1 = map (\<lambda>e. ?deg (S ! e)) [0..<length S]"
    by (rule adj_ok_sum1 [OF ok inS]) simp
  have I: "np_repeat E (sum1 X1) = ?I"
    unfolding X1_eq nt
    by (simp add: np_repeat_by_index [OF lenE [unfolded S_def]] table_const T_def S_def)
  have J: "np_repeat S (sum1 X1) = ?J"
    unfolding X1_eq nt by (simp add: np_repeat_by_index [OF refl] table_const T_def S_def)
  have ind1: "indices ?X1 = ?K"
    using adj_ok_rows_indices [OF ok inS] by (simp add: T_def S_def)
  have row1: "tocoo_row ?X1 = map fst T"
    unfolding T_def S_def by (rule fancy_tocoo_row) (simp_all add: S_def)
  have dat1: "set (data ?X1) \<subseteq> {True}"
    using adj_ok_data_row(2) [OF ok] inS by auto
  have len1: "length (data ?X1) = length T"
    using adj_ok_rows_data_length [OF ok inS] by (simp add: T_def S_def)
  have K: "snd (nonzero X1) = ?K"
  proof -
    have "nonzero ?X1 = (tocoo_row ?X1, indices ?X1)"
      by (rule nonzero_all_True) (simp_all only: dat1 row1 ind1 len1 length_map)
    then show ?thesis unfolding X1_eq by (simp only: ind1 snd_conv)
  qed
  have X: "data X2 = map snd T"
    unfolding X2_eq using adj_ok_rows_edgeids [OF ok inS, of ?B] by (simp add: T_def S_def)
  have Rr: "tocoo_row X2 = map fst T"
    unfolding X2_eq T_def S_def by (rule fancy_tocoo_row) (simp_all add: S_def)
  define D where "D = filter (\<lambda>t. ?I ! t \<noteq> ?K ! t) [0..<length T]"
  have D: "\<forall>t \<in> set D. t < length T \<and> E ! fst (T ! t) \<noteq> S ! snd (T ! t)"
    by (auto simp: D_def case_prod_unfold)
  have in_range: "\<not> (\<exists>t \<in> set D. t \<ge> length ?J \<or> t \<ge> length (map snd T) \<or> t \<ge> length (map fst T))"
    using D by auto
  have fin': "(if length ?K \<noteq> length ?I then Inl ValueError
               else if \<exists>t \<in> set D. t \<ge> length ?J \<or> t \<ge> length (map snd T) \<or> t \<ge> length (map fst T)
               then Inl IndexError
               else Inr \<lparr>idnb_i = E, idnb_j = S,
                         id3dnb_i = map (\<lambda>t. ?I ! t) D,
                         id3dnb_j = map (\<lambda>t. ?J ! t) D,
                         id3dnb_k = map (\<lambda>t. ?K ! t) D,
                         id_expand_kj = map (\<lambda>t. map snd T ! t) D,
                         id_reduce_ji = map (\<lambda>t. map fst T ! t) D\<rparr>) = Inr gr"
    using fin unfolding Let_def I J K X Rr D_def [symmetric, unfolded length_map [symmetric, of T "\<lambda>(e, q). E ! e"]]
    .
  have gr: "gr = \<lparr>idnb_i = E, idnb_j = S,
                  id3dnb_i = map (\<lambda>t. ?I ! t) D,
                  id3dnb_j = map (\<lambda>t. ?J ! t) D,
                  id3dnb_k = map (\<lambda>t. ?K ! t) D,
                  id_expand_kj = map (\<lambda>t. map snd T ! t) D,
                  id_reduce_ji = map (\<lambda>t. map fst T ! t) D\<rparr>"
    using fin' in_range by (simp split: if_splits)
  have m: "map (\<lambda>t. map f T ! t) D = map (\<lambda>t. f (T ! t)) D" for f :: "nat \<times> nat \<Rightarrow> nat"
    by (rule map_cong) (use D in simp_all)
  show "\<exists>D. (\<forall>t \<in> set D. t < length T \<and> E ! fst (T ! t) \<noteq> S ! snd (T ! t)) \<and>
           gr = \<lparr>idnb_i = E, idnb_j = S,
                  id3dnb_i = map (\<lambda>t. E ! fst (T ! t)) D,
                  id3dnb_j = map (\<lambda>t. S ! fst (T ! t)) D,
                  id3dnb_k = map (\<lambda>t. S ! snd (T ! t)) D,
                  id_expand_kj = map (\<lambda>t. snd (T ! t)) D,
                  id_reduce_ji = map (\<lambda>t. fst (T ! t)) D\<rparr>"
    using D gr by (intro exI [of _ D]) (simp add: m case_prod_unfold)
qed

lemma table_mem:
  "(e, q) \<in> set (triplet_table p S) \<longleftrightarrow> e < length S \<and> p ! (S ! e) \<le> q \<and> q < p ! Suc (S ! e)"
  by (force simp: triplet_table_def)

lemma sum_list_concat_nat: "sum_list (concat xss) = sum_list (map sum_list (xss :: nat list list))"
  by (induction xss) simp_all

lemma adj_ok_csr_matrix_dense: "adj_ok (csr_matrix_dense M nc) (map (\<lambda>row. length (filter (\<lambda>j. row ! j) [0..<length row])) M)"
  by (auto simp: adj_ok_def csr_matrix_dense_def Let_def length_concat comp_def)

lemma adjacency_ok:
  assumes "adjacency c e = Inr A"
  shows "\<exists>lens. adj_ok A lens"
proof -
  from assms obtain M nc where "A = csr_matrix_dense M nc"
    by (auto simp: adjacency_def bindE_eq_Inr csr_sub_bool_def split: if_splits)
  then show ?thesis using adj_ok_csr_matrix_dense by blast
qed

lemma mapE_Inr_set:
  "mapE f xs = Inr ys \<Longrightarrow> y \<in> set ys \<Longrightarrow> \<exists>x \<in> set xs. f x = Inr y"
proof (induction xs arbitrary: ys)
  case Nil
  then show ?case by simp
next
  case (Cons x xs)
  then show ?case by (auto simp: bindE_eq_Inr)
qed

lemma mapE_Inr_length: "mapE f xs = Inr ys \<Longrightarrow> length ys = length xs"
  by (induction xs arbitrary: ys) (auto simp: bindE_eq_Inr)

lemma bmat_indptr:
  assumes "\<forall>m \<in> set mats. indptr m = 0 # cumsum (L m)"
  shows "concat (map (\<lambda>i. map (\<lambda>p. p + (0 # cumsum (map nnz mats)) ! i)
                          (drop (if i \<ge> 1 then 1 else 0) (indptr (mats ! i))))
                 [0..<length mats])
         = (if mats = [] then [] else 0 # cumsum (concat (map L mats)))"
  using assms
proof (induction mats rule: rev_induct)
  case Nil
  then show ?case by simp
next
  case (snoc m ms)
  let ?F = "\<lambda>mats i. map (\<lambda>p. p + (0 # cumsum (map nnz mats)) ! i)
                         (drop (if i \<ge> 1 then 1 else 0) (indptr (mats ! i)))"
  have IH: "concat (map (?F ms) [0..<length ms]) = (if ms = [] then [] else 0 # cumsum (concat (map L ms)))"
    using snoc by simp
  have m: "indptr m = 0 # cumsum (L m)" using snoc.prems by simp
  have nnz_L: "map nnz ms = map (\<lambda>m. sum_list (L m)) ms"
    by (rule map_cong) (use snoc.prems in \<open>simp_all add: nnz_def ptr_last del: last.simps\<close>)
  have tot: "sum_list (map nnz ms) = sum_list (concat (map L ms))"
    by (simp add: nnz_L sum_list_concat_nat comp_def)
  have off: "(0 # cumsum (map nnz (ms @ [m]))) ! i = (0 # cumsum (map nnz ms)) ! i" if "i \<le> length ms" for i
    using that by (simp add: ptr_nth del: nth_Cons_Suc)
  have first: "map (?F (ms @ [m])) [0..<length ms] = map (?F ms) [0..<length ms]"
  proof (rule map_cong [OF refl])
    fix i assume "i \<in> set [0..<length ms]"
    then have i: "i < length ms" by simp
    have a: "(0 # cumsum (map nnz (ms @ [m]))) ! i = (0 # cumsum (map nnz ms)) ! i"
      using i by (intro off) simp
    have b: "(ms @ [m]) ! i = ms ! i" using i by (simp add: nth_append)
    show "?F (ms @ [m]) i = ?F ms i" by (simp only: a b)
  qed
  have offl: "(0 # cumsum (map nnz (ms @ [m]))) ! length ms = sum_list (map nnz ms)"
    using off [of "length ms"] ptr_nth [of "length ms" "map nnz ms"] by simp
  have last: "?F (ms @ [m]) (length ms)
              = map (\<lambda>p. p + sum_list (concat (map L ms))) (drop (if ms = [] then 0 else 1) (0 # cumsum (L m)))"
    by (simp only: offl tot nth_append_length m) (cases ms; simp)
  have split: "concat (map G [0..<length (ms @ [m])]) = concat (map G [0..<length ms]) @ G (length ms)"
    for G :: "nat \<Rightarrow> nat list"
    by simp
  have "concat (map (?F (ms @ [m])) [0..<length (ms @ [m])])
        = concat (map (?F ms) [0..<length ms]) @ ?F (ms @ [m]) (length ms)"
    by (simp only: split first)
  also have "\<dots> = 0 # cumsum (concat (map L (ms @ [m])))"
  proof (cases "ms = []")
    case True
    then show ?thesis by (simp add: m cumsum_def)
  next
    case False
    have c: "concat (map L (ms @ [m])) = concat (map L ms) @ L m" by simp
    show ?thesis using False by (simp only: IH last c cumsum_append if_False) simp
  qed
  finally show ?case by simp
qed


lemma csr_matrix_None_Inr:
  assumes "csr_matrix d i p None = Inr A"
  shows "indptr A = p" "nrows A = length p - 1" "data A = take (last p) d"
    "indices A = take (last p) i" "length i = length d" "last p \<le> length i"
    "i \<noteq> []" "ncols A = Max (set i) + 1"
  using assms by (auto simp: csr_matrix_def bindE_eq_Inr split: if_splits)

lemma bmat_fast_ok:
  assumes mats: "\<forall>m \<in> set mats. \<exists>lens. adj_ok m lens" and A: "bmat_fast mats = Inr A"
  shows "\<exists>lens. adj_ok A lens"
proof -
  from mats obtain L where L: "\<forall>m \<in> set mats. adj_ok m (L m)"
    by metis
  have ne: "mats \<noteq> []" using A by (auto simp: bmat_fast_def)
  have ptr: "\<forall>m \<in> set mats. indptr m = 0 # cumsum (L m)"
    using L by (simp add: adj_ok_def)
  let ?lens = "concat (map L mats)"
  let ?d = "concat (map data mats)"
  let ?i = "concat (map (\<lambda>i. map (\<lambda>c. c + (0 # cumsum (map nrows mats)) ! i) (indices (mats ! i)))
                      [0..<length mats])"
  have c: "csr_matrix ?d ?i (0 # cumsum ?lens) None = Inr A"
    using A by (simp only: bmat_fast_def Let_def bmat_indptr [OF ptr] ne if_False)
  note f = csr_matrix_None_Inr [OF c]
  have l: "last (0 # cumsum ?lens) = sum_list ?lens" by (rule ptr_last)
  have "set ?d \<subseteq> {True}" using L by (auto simp: adj_ok_def)
  then have "set (data A) \<subseteq> {True}"
    unfolding f(3) by (meson set_take_subset subset_trans)
  moreover have "length (indices A) = sum_list ?lens" "length (data A) = sum_list ?lens"
    using f(5,6) unfolding f(3,4) l by simp_all
  moreover have "length ?lens = nrows A" unfolding f(2) by simp
  ultimately have "adj_ok A ?lens"
    using f(1) by (simp add: adj_ok_def)
  then show ?thesis ..
qed

lemma collate_data_graph:
  assumes "collate_data rrm self examples g = Inr (b, exs, g')"
  shows "\<exists>A lens. adj_ok A lens \<and> graph_indices A = Inr (graph b)"
proof -
  from assms obtain ex2 mats A gr where
    m: "mapE (adjacency (cutoff self)) ex2 = Inr mats" and
    A: "bmat_fast mats = Inr A" and
    gr: "graph_indices A = Inr gr" and b: "graph b = gr"
    by (auto simp: collate_data_def bindE_eq_Inr)
  have "\<forall>m \<in> set mats. \<exists>lens. adj_ok m lens"
    using mapE_Inr_set [OF m] adjacency_ok by blast
  then obtain lens where "adj_ok A lens"
    using bmat_fast_ok [OF _ A] by blast
  then show ?thesis using gr b by blast
qed

lemma graph_triplets:
  assumes ok: "adj_ok A lens" and g: "graph_indices A = Inr gr"
  shows "length (id3dnb_i gr) = length (id3dnb_k gr)"
    and "length (id3dnb_j gr) = length (id3dnb_k gr)"
    and "length (id_expand_kj gr) = length (id3dnb_k gr)"
    and "length (id_reduce_ji gr) = length (id3dnb_k gr)"
    and "length (idnb_i gr) = length (idnb_j gr)"
    and "t < length (id3dnb_k gr) \<Longrightarrow> id3dnb_k gr ! t \<noteq> id3dnb_i gr ! t"
    and "t < length (id3dnb_k gr) \<Longrightarrow>
           id_expand_kj gr ! t < length (idnb_i gr) \<and>
           idnb_i gr ! (id_expand_kj gr ! t) = id3dnb_j gr ! t \<and>
           idnb_j gr ! (id_expand_kj gr ! t) = id3dnb_k gr ! t"
    and "t < length (id3dnb_k gr) \<Longrightarrow>
           id_reduce_ji gr ! t < length (idnb_i gr) \<and>
           idnb_i gr ! (id_reduce_ji gr ! t) = id3dnb_i gr ! t \<and>
           idnb_j gr ! (id_reduce_ji gr ! t) = id3dnb_j gr ! t"
proof -
  define E where "E = tocoo_row A"
  define S where "S = indices A"
  define T where "T = triplet_table (indptr A) (indices A)"
  note ch = graph_indices_char [OF ok g, folded E_def S_def T_def]
  from ch(1) obtain D where
    D: "\<forall>t \<in> set D. t < length T \<and> E ! fst (T ! t) \<noteq> S ! snd (T ! t)" and
    gr: "gr = \<lparr>idnb_i = E, idnb_j = S,
                  id3dnb_i = map (\<lambda>t. E ! fst (T ! t)) D,
                  id3dnb_j = map (\<lambda>t. S ! fst (T ! t)) D,
                  id3dnb_k = map (\<lambda>t. S ! snd (T ! t)) D,
                  id_expand_kj = map (\<lambda>t. snd (T ! t)) D,
                  id_reduce_ji = map (\<lambda>t. fst (T ! t)) D\<rparr>"
    by blast
  show "length (id3dnb_i gr) = length (id3dnb_k gr)" "length (id3dnb_j gr) = length (id3dnb_k gr)"
    "length (id_expand_kj gr) = length (id3dnb_k gr)" "length (id_reduce_ji gr) = length (id3dnb_k gr)"
    "length (idnb_i gr) = length (idnb_j gr)"
    using ch(2) by (simp_all add: gr)
  have lenS: "length S = sum_list lens" using ok by (simp add: S_def adj_ok_def)
  have lenE: "length E = sum_list lens" using ch(2) lenS by simp
  have mem: "fst (T ! u) < length S \<and> snd (T ! u) < length S \<and>
             E ! snd (T ! u) = S ! fst (T ! u)" if u: "u < length T" for u
  proof -
    obtain e q where eq: "T ! u = (e, q)" by (cases "T ! u")
    have "(e, q) \<in> set T" using u eq nth_mem by metis
    then have e: "e < length S" and lo: "indptr A ! (S ! e) \<le> q" and hi: "q < indptr A ! Suc (S ! e)"
      by (simp_all add: T_def table_mem S_def)
    have r: "S ! e < nrows A" using ch(3) e by simp
    have q: "q < length S" using hi adj_ok_ptr_bound(2) [OF ok r] lenS by simp
    have p: "indptr A = 0 # cumsum lens" and n: "nrows A = length lens"
      using ok by (simp_all add: adj_ok_def)
    have "expandptr (length lens) (0 # cumsum lens) ! q = S ! e"
      using r lo hi unfolding p n by (intro expandptr_nth) simp_all
    then have "E ! q = S ! e" by (simp add: E_def tocoo_row_def p n)
    then show ?thesis using e q by (simp add: eq)
  qed
  {
    assume t: "t < length (id3dnb_k gr)"
    then have tD: "t < length D" by (simp add: gr)
    then have u: "D ! t < length T" "E ! fst (T ! (D ! t)) \<noteq> S ! snd (T ! (D ! t))"
      using D by simp_all
    note m = mem [OF u(1)]
    show "id3dnb_k gr ! t \<noteq> id3dnb_i gr ! t"
      using tD u by (simp add: gr)
    show "id_expand_kj gr ! t < length (idnb_i gr) \<and>
           idnb_i gr ! (id_expand_kj gr ! t) = id3dnb_j gr ! t \<and>
           idnb_j gr ! (id_expand_kj gr ! t) = id3dnb_k gr ! t"
      using tD m lenS lenE by (simp add: gr)
    show "id_reduce_ji gr ! t < length (idnb_i gr) \<and>
           idnb_i gr ! (id_reduce_ji gr ! t) = id3dnb_i gr ! t \<and>
           idnb_j gr ! (id_reduce_ji gr ! t) = id3dnb_j gr ! t"
      using tD m lenS lenE by (simp add: gr)
  }
qed

section \<open>The edges of one structure\<close>

lemma upt_0_3: "[0..<3] = [0, 1, 2]"
  by (simp add: upt_rec)


lemma csr_matrix_dense_shape [simp]:
  "nrows (csr_matrix_dense M nc) = length M" "ncols (csr_matrix_dense M nc) = nc"
  by (simp_all add: csr_matrix_dense_def Let_def)










lemma exact_le_self: "0 \<le> c \<Longrightarrow> exact_le a a c"
  by (simp add: exact_le_def)





lemma upt_0_2: "[0..<2] = [0, 1]"
  by (simp add: upt_rec)



lemma full2_minus_eye:
  "csr_sub_bool (csr_matrix_dense [[True, True], [True, True]] 2) 2 = Inr coincident_adj"
  unfolding coincident_adj_def by code_simp





section \<open>The equilateral triangle\<close>

lemma get_rand_norm_3d_zero:
  "get_rand_norm_3d n 0 g = (NDArray DFloat [n, 3] (replicate (n * 3) 0), g\<lparr>pos := pos g + n * 3\<rparr>)"
  by (simp add: get_rand_norm_3d_def standard_normal_def map_replicate_const)

lemma arr_add_zeros:
  "length (flat R) \<le> k \<Longrightarrow> arr_add R (NDArray d s (replicate k 0)) = NDArray DFloat (shape R) (flat R)"
  by (simp add: arr_add_def list_eq_iff_nth_eq)

lemma augment_one_plain:
  assumes "dict_get e ''R'' = Inr R" "shape R = [n, 3]" "length (flat R) = n * 3"
  shows "augment_one rrm False 0 e g
         = Inr (dict_set (dict_set e ''R_orig'' R) ''R'' (NDArray DFloat [n, 3] (flat R)),
                g\<lparr>pos := pos g + n * 3\<rparr>)"
  using assms by (simp add: augment_one_def len_arr_def get_rand_norm_3d_zero arr_add_zeros)

lemma no_augment_sel:
  "cutoff (no_augment c) = c" "rand_cov (no_augment c) = 0" "rotate (no_augment c) = False"
  by (simp_all add: no_augment_def)

lemma triangle_restore:
  "restore_shape [triangle] = Inr [[(''R'', triangle_R), (''Z'', NDArray DInt [3] [8, 1, 1])]]"
  by (simp add: restore_shape_def restore_one_def dict_get_def reshape_m1_3_def triangle_def
      triangle_R_def)

lemma triangle_augment:
  "augment rrm False 0 [[(''R'', triangle_R), (''Z'', NDArray DInt [3] [8, 1, 1])]] g
   = Inr ([triangle_after], g\<lparr>pos := pos g + 9\<rparr>)"
  by (simp add: augment_one_plain [where n = 3 and R = triangle_R] dict_get_def
      triangle_after_def triangle_R_def)

lemma triangle_fields:
  "concat_fields [triangle_after]
   = Inr [(''R'', triangle_R), (''Z'', NDArray DInt [3] [8, 1, 1]), (''R_orig'', triangle_R)]"
  by (simp add: concat_fields_def triangle_after_def dict_get_def concat_stack_def
      np_concatenate_def atleast_1d_def triangle_R_def)

lemma triangle_within:
  "within_cutoff triangle_R 2 3 = [[True, True, True], [True, True, True], [True, True, True]]"
  by (simp add: within_cutoff_def pair_dist_def upt_0_3 power_divide power2_eq_square
      triangle_R_def)

lemma full3_minus_eye:
  "csr_sub_bool (csr_matrix_dense [[True, True, True], [True, True, True], [True, True, True]] 3) 3
   = Inr \<lparr>data = [True, True, True, True, True, True], indices = [1, 2, 0, 2, 0, 1],
           indptr = [0, 2, 4, 6], nrows = 3, ncols = 3\<rparr>"
  by code_simp

lemma triangle_adjacency:
  "mapE (adjacency 2) [triangle_after]
   = Inr [\<lparr>data = [True, True, True, True, True, True], indices = [1, 2, 0, 2, 0, 1],
            indptr = [0, 2, 4, 6], nrows = 3, ncols = 3\<rparr>]"
  by (simp add: adjacency_def triangle_after_def dict_get_def len_arr_def
      triangle_within [unfolded triangle_R_def] full3_minus_eye triangle_R_def)

lemma triangle_bmat:
  "bmat_fast [\<lparr>data = [True, True, True, True, True, True], indices = [1, 2, 0, 2, 0, 1],
               indptr = [0, 2, 4, 6], nrows = 3, ncols = 3\<rparr>]
   = Inr \<lparr>data = [True, True, True, True, True, True], indices = [1, 2, 0, 2, 0, 1],
           indptr = [0, 2, 4, 6], nrows = 3, ncols = 3\<rparr>"
  by code_simp

lemma triangle_graph_indices:
  "graph_indices \<lparr>data = [True, True, True, True, True, True], indices = [1, 2, 0, 2, 0, 1],
                   indptr = [0, 2, 4, 6], nrows = 3, ncols = 3\<rparr>
   = Inr triangle_graph"
  unfolding triangle_graph_def by code_simp

lemma triangle_N:
  "mapE (\<lambda>e. bindE (dict_get e ''Z'') len_arr) [triangle_after] = Inr [3]"
  by (simp add: triangle_after_def dict_get_def len_arr_def)

lemma triangle_seg: "np_repeat [0..<length [triangle_after]] [3] = [0, 0, 0]"
  by (simp add: np_repeat_def numeral_3_eq_3)

lemma collate_triangle:
  "collate_data rrm (no_augment 2) [triangle] g
   = Inr (triangle_batch, [triangle_after], g\<lparr>pos := pos g + 9\<rparr>)"
  by (simp only: collate_data_def no_augment_sel triangle_restore triangle_augment
      triangle_fields triangle_adjacency triangle_bmat triangle_graph_indices triangle_N
      triangle_seg bindE_Inr prod.case triangle_batch_def)

section \<open>One atom\<close>

lemma collate_data_stages:
  assumes "restore_shape exs = Inr ex1"
    and "augment rrm (rotate self) (rand_cov self) ex1 g = Inr (ex2, g')"
    and "concat_fields ex2 = Inr flds"
    and "mapE (adjacency (cutoff self)) ex2 = Inr mats"
    and "bmat_fast mats = Inr A"
    and "graph_indices A = Inr gr"
    and "mapE (\<lambda>e. bindE (dict_get e ''Z'') len_arr) ex2 = Inr N"
  shows "collate_data rrm self exs g
         = Inr (\<lparr>example_fields = flds, graph = gr, batch_seg = np_repeat [0..<length ex2] N\<rparr>,
                ex2, g')"
  by (simp add: collate_data_def assms)

lemma collate_data_merge_error:
  assumes "restore_shape exs = Inr ex1"
    and "augment rrm (rotate self) (rand_cov self) ex1 g = Inr (ex2, g')"
    and "concat_fields ex2 = Inr flds"
    and "mapE (adjacency (cutoff self)) ex2 = Inr mats"
    and "bmat_fast mats = Inl err"
  shows "collate_data rrm self exs g = Inl err"
  by (simp add: collate_data_def assms)

lemma collate_data_assemble:
  "collate_data rrm self examples g =
     bindE (restore_shape examples) (\<lambda>ex1.
     bindE (augment rrm (rotate self) (rand_cov self) ex1 g) (\<lambda>(ex2, g').
     bindE (assemble (cutoff self) ex2) (\<lambda>b. Inr (b, ex2, g'))))"
  by (simp add: collate_data_def assemble_def bindE_def split: sum.splits prod.splits)

lemma single_restore:
  "restore_shape [single_atom] = Inr [[(''R'', single_atom_R), (''Z'', NDArray DInt [1] [8])]]"
  by (simp add: restore_shape_def restore_one_def dict_get_def reshape_m1_3_def single_atom_def
      single_atom_R_def)

lemma single_augment:
  "augment rrm False 0 [[(''R'', single_atom_R), (''Z'', NDArray DInt [1] [8])]] g
   = Inr ([single_atom_after], g\<lparr>pos := pos g + 3\<rparr>)"
  by (simp add: augment_one_plain [where n = 1 and R = single_atom_R] dict_get_def
      single_atom_after_def single_atom_R_def)

lemma single_fields: "concat_fields [single_atom_after] = Inr single_atom_after"
  by (simp add: concat_fields_def single_atom_after_def dict_get_def concat_stack_def
      np_concatenate_def atleast_1d_def single_atom_R_def)

lemma single_within:
  "within_cutoff single_atom_R (- 1) 1 = [[False]]" "within_cutoff single_atom_R 2 1 = [[True]]"
  by (simp_all add: within_cutoff_def pair_dist_def upt_0_3 single_atom_R_def)

lemma one_by_one_minus_eye:
  "csr_sub_bool (csr_matrix_dense [[False]] 1) 1 = Inr self_loop_adj"
  "csr_sub_bool (csr_matrix_dense [[True]] 1) 1 = Inr lonely_adj"
  unfolding self_loop_adj_def lonely_adj_def by code_simp+

lemma single_after_get:
  "dict_get single_atom_after ''R'' = Inr single_atom_R"
  "dict_get single_atom_after ''Z'' = Inr (NDArray DInt [1] [8])"
  "len_arr single_atom_R = Inr 1"
  "len_arr (NDArray DInt [1] [8]) = Inr 1"
  by (simp_all add: single_atom_after_def dict_get_def len_arr_def single_atom_R_def)

lemma single_adjacency:
  "adjacency (- 1) single_atom_after = Inr self_loop_adj"
  "adjacency 2 single_atom_after = Inr lonely_adj"
  by (simp_all only: adjacency_def single_after_get bindE_Inr single_within one_by_one_minus_eye)

lemma single_adjacency_list:
  "mapE (adjacency (- 1)) [single_atom_after] = Inr [self_loop_adj]"
  "mapE (adjacency 2) [single_atom_after] = Inr [lonely_adj]"
  by (simp_all only: mapE.simps single_adjacency bindE_Inr)

lemma single_bmat:
  "bmat_fast [self_loop_adj] = Inr self_loop_adj" "bmat_fast [lonely_adj] = Inl ValueError"
  unfolding self_loop_adj_def lonely_adj_def by code_simp+

lemma self_loop_graph:
  "graph_indices self_loop_adj
   = Inr \<lparr>idnb_i = [0], idnb_j = [0], id3dnb_i = [], id3dnb_j = [], id3dnb_k = [],
           id_expand_kj = [], id_reduce_ji = []\<rparr>"
  unfolding self_loop_adj_def by code_simp

lemma single_N:
  "mapE (\<lambda>e. bindE (dict_get e ''Z'') len_arr) [single_atom_after] = Inr [1]"
  by (simp add: single_atom_after_def dict_get_def len_arr_def)

lemma single_seg: "np_repeat [0..<length [single_atom_after]] [1] = [0]"
  by (simp add: np_repeat_def)


section \<open>The input records after a call\<close>

lemma dict_get_dict_set:
  "dict_get (dict_set d k v) k' = (if k' = k then Inr v else dict_get d k')"
  by (induction d) (auto simp: dict_get_def)

lemma restore_one_frame:
  assumes "restore_one d = Inr d'" "k \<noteq> ''R''"
  shows "dict_get d' k = dict_get d k"
  using assms by (auto simp: restore_one_def bindE_eq_Inr dict_get_dict_set)

lemma augment_one_Inr:
  assumes "augment_one rrm rot cov e g = Inr (e', g')"
  shows "\<exists>e1 R v. (e1 = e \<or> (\<exists>r'. e1 = dict_set e ''R'' r')) \<and> (\<not> rot \<longrightarrow> e1 = e) \<and>
           dict_get e1 ''R'' = Inr R \<and> e' = dict_set (dict_set e1 ''R_orig'' R) ''R'' v"
  using assms
  by (cases rot) (auto simp: augment_one_def bindE_eq_Inr case_prod_unfold)

lemma augment_one_frame:
  assumes "augment_one rrm rot cov e g = Inr (e', g')"
  shows "k \<noteq> ''R'' \<Longrightarrow> k \<noteq> ''R_orig'' \<Longrightarrow> dict_get e' k = dict_get e k"
    and "\<exists>r. dict_get e' ''R_orig'' = Inr r"
    and "\<exists>r. dict_get e' ''R'' = Inr r"
    and "\<not> rot \<Longrightarrow> dict_get e' ''R_orig'' = dict_get e ''R''"
proof -
  from augment_one_Inr [OF assms] obtain e1 R v where
    e1: "e1 = e \<or> (\<exists>r'. e1 = dict_set e ''R'' r')" and nr: "\<not> rot \<longrightarrow> e1 = e" and
    R: "dict_get e1 ''R'' = Inr R" and e': "e' = dict_set (dict_set e1 ''R_orig'' R) ''R'' v"
    by blast
  show "k \<noteq> ''R'' \<Longrightarrow> k \<noteq> ''R_orig'' \<Longrightarrow> dict_get e' k = dict_get e k"
    using e1 by (auto simp: e' dict_get_dict_set)
  show "\<exists>r. dict_get e' ''R_orig'' = Inr r"
    by (simp add: e' dict_get_dict_set)
  show "\<exists>r. dict_get e' ''R'' = Inr r"
    by (simp add: e' dict_get_dict_set)
  show "\<not> rot \<Longrightarrow> dict_get e' ''R_orig'' = dict_get e ''R''"
    using nr R by (simp add: e' dict_get_dict_set)
qed

lemma augment_Inr_nth:
  "augment rrm rot cov es g = Inr (es', g') \<Longrightarrow>
   length es' = length es \<and>
   (\<forall>n < length es. \<exists>g1 g2. augment_one rrm rot cov (es ! n) g1 = Inr (es' ! n, g2))"
proof (induction es arbitrary: es' g g')
  case Nil
  then show ?case by simp
next
  case (Cons e es)
  from Cons.prems obtain e1 g1 es1 where
    a: "augment_one rrm rot cov e g = Inr (e1, g1)" and
    b: "augment rrm rot cov es g1 = Inr (es1, g')" and c: "es' = e1 # es1"
    by (auto simp: bindE_eq_Inr)
  note IH = Cons.IH [OF b]
  show ?case
  proof (intro conjI allI impI)
    show "length es' = length (e # es)" using IH c by simp
    fix n assume n: "n < length (e # es)"
    show "\<exists>g1 g2. augment_one rrm rot cov ((e # es) ! n) g1 = Inr (es' ! n, g2)"
    proof (cases n)
      case 0
      then show ?thesis using a c by auto
    next
      case (Suc k)
      then show ?thesis using IH n c by simp
    qed
  qed
qed

section \<open>Calls without noise return the same for every generator state\<close>

lemma augment_one_same:
  assumes "rot \<longrightarrow> (\<forall>g g'. fst (rrm g) = fst (rrm g'))"
  shows "map_sum id fst (augment_one rrm rot 0 e g1) = map_sum id fst (augment_one rrm rot 0 e g2)"
proof (cases rot)
  case False
  then show ?thesis
    by (simp add: augment_one_def get_rand_norm_3d_zero bindE_def split: sum.splits)
next
  case True
  obtain M h1 where m1: "rrm g1 = (M, h1)" by (cases "rrm g1")
  obtain M' h2 where m2: "rrm g2 = (M', h2)" by (cases "rrm g2")
  have "fst (rrm g1) = fst (rrm g2)" using assms True by blast
  then have M: "M' = M" using m1 m2 by simp
  show ?thesis
    using True
    by (simp add: augment_one_def random_rotate_def m1 m2 M Let_def get_rand_norm_3d_zero
        bindE_def split: sum.splits)
qed

lemma map_sum_fst_cases:
  assumes "map_sum id fst r1 = map_sum id fst r2"
  shows "(\<exists>x. r1 = Inl x \<and> r2 = Inl x) \<or> (\<exists>v h1 h2. r1 = Inr (v, h1) \<and> r2 = Inr (v, h2))"
  using assms by (cases r1; cases r2) auto

lemma augment_same:
  assumes "rot \<longrightarrow> (\<forall>g g'. fst (rrm g) = fst (rrm g'))"
  shows "map_sum id fst (augment rrm rot 0 es g1) = map_sum id fst (augment rrm rot 0 es g2)"
proof (induction es arbitrary: g1 g2)
  case Nil
  show ?case by simp
next
  case (Cons e es)
  from map_sum_fst_cases [OF augment_one_same [OF assms, of e g1 g2]]
  show ?case
  proof (elim disjE exE conjE)
    fix x assume "augment_one rrm rot 0 e g1 = Inl x" "augment_one rrm rot 0 e g2 = Inl x"
    then show ?thesis by simp
  next
    fix e' h1 h2
    assume a: "augment_one rrm rot 0 e g1 = Inr (e', h1)" "augment_one rrm rot 0 e g2 = Inr (e', h2)"
    from map_sum_fst_cases [OF Cons.IH [of h1 h2]]
    show ?thesis
      by (elim disjE exE conjE) (simp_all add: a)
  qed
qed

lemma collate_data_same:
  assumes "rand_cov self = 0" and "rotate self \<longrightarrow> (\<forall>g g'. fst (rrm g) = fst (rrm g'))"
  shows "map_sum id (\<lambda>(b, exs, g'). (b, exs)) (collate_data rrm self examples g1)
         = map_sum id (\<lambda>(b, exs, g'). (b, exs)) (collate_data rrm self examples g2)"
proof (cases "restore_shape examples")
  case (Inl x)
  then show ?thesis by (simp add: collate_data_assemble)
next
  case (Inr ex1)
  from map_sum_fst_cases [OF augment_same [OF assms(2), of ex1 g1 g2]]
  show ?thesis
  proof (elim disjE exE conjE)
    fix x
    assume "augment rrm (rotate self) 0 ex1 g1 = Inl x" "augment rrm (rotate self) 0 ex1 g2 = Inl x"
    then show ?thesis by (simp add: collate_data_assemble Inr assms(1))
  next
    fix ex2 h1 h2
    assume "augment rrm (rotate self) 0 ex1 g1 = Inr (ex2, h1)"
      "augment rrm (rotate self) 0 ex1 g2 = Inr (ex2, h2)"
    then show ?thesis
      by (cases "assemble (cutoff self) ex2") (simp_all add: collate_data_assemble Inr assms(1))
  qed
qed

lemma rotating_sel: "cutoff rotating = 100" "rand_cov rotating = 0" "rotate rotating = True"
  by (simp_all add: rotating_def)

lemma identity_rotation_const: "fst (identity_rotation g) = fst (identity_rotation g')"
  by (simp add: identity_rotation_def)


section \<open>Two atoms under noise\<close>

lemma pair_restore: "restore_shape [coincident_pair] = Inr [coincident_pair]"
  by (simp add: restore_shape_def restore_one_def dict_get_def reshape_m1_3_def coincident_pair_def)

lemma draws:
  "get_rand_norm_3d 2 1 rng0 = (noisy_R1, rng0\<lparr>pos := 6\<rparr>)"
  "get_rand_norm_3d 2 1 (rng0\<lparr>pos := 6\<rparr>) = (noisy_R2, rng0\<lparr>pos := 12\<rparr>)"
  by (simp_all add: get_rand_norm_3d_def standard_normal_def rng0_def upt_rec noisy_R1_def noisy_R2_def)

lemma pair_get:
  "dict_get coincident_pair ''R'' = Inr pair_zeros"
  "dict_get coincident_pair ''Z'' = Inr pair_Z"
  "len_arr pair_zeros = Inr 2" "len_arr pair_Z = Inr 2"
  by (simp_all add: coincident_pair_def dict_get_def len_arr_def pair_zeros_def pair_Z_def)

lemma pair_add:
  "arr_add pair_zeros noisy_R1 = noisy_R1" "arr_add pair_zeros noisy_R2 = noisy_R2"
  by (simp_all add: arr_add_def pair_zeros_def noisy_R1_def noisy_R2_def)

lemma pair_set:
  "dict_set (dict_set coincident_pair ''R_orig'' pair_zeros) ''R'' R = pair_after R"
  by (simp add: coincident_pair_def pair_after_def pair_Z_def)

lemma pair_augment_one:
  "augment_one rrm False 1 coincident_pair rng0 = Inr (pair_after noisy_R1, rng0\<lparr>pos := 6\<rparr>)"
  "augment_one rrm False 1 coincident_pair (rng0\<lparr>pos := 6\<rparr>) = Inr (pair_after noisy_R2, rng0\<lparr>pos := 12\<rparr>)"
  by (simp_all only: augment_one_def if_False bindE_Inr prod.case pair_get draws pair_add pair_set)

lemma pair_augment:
  "augment rrm False 1 [coincident_pair] rng0 = Inr ([pair_after noisy_R1], rng0\<lparr>pos := 6\<rparr>)"
  "augment rrm False 1 [coincident_pair] (rng0\<lparr>pos := 6\<rparr>) = Inr ([pair_after noisy_R2], rng0\<lparr>pos := 12\<rparr>)"
  by (simp_all only: augment.simps pair_augment_one bindE_Inr prod.case)

lemma pair_after_get:
  "dict_get (pair_after R) ''R'' = Inr R"
  "dict_get (pair_after R) ''Z'' = Inr pair_Z"
  "dict_get (pair_after R) ''R_orig'' = Inr pair_zeros"
  by (simp_all add: pair_after_def dict_get_def)

lemma pair_fields:
  "shape R = [2, 3] \<Longrightarrow> dtype_of R = DFloat \<Longrightarrow> concat_fields [pair_after R] = Inr (pair_after R)"
  by (cases R) (simp add: concat_fields_def pair_after_def dict_get_def concat_stack_def
      np_concatenate_def atleast_1d_def pair_Z_def pair_zeros_def)

lemma sqrt_le_iff_sq: "0 \<le> c \<Longrightarrow> sqrt x \<le> c \<longleftrightarrow> x \<le> c\<^sup>2"
  by (metis abs_of_nonneg real_sqrt_abs real_sqrt_le_iff)

lemma noisy_within:
  "within_cutoff noisy_R1 100 2 = [[True, True], [True, True]]"
  "within_cutoff noisy_R2 100 2 = [[True, True], [True, True]]"
  "within_cutoff pair_zeros 2 2 = [[True, True], [True, True]]"
  by (simp_all add: within_cutoff_def pair_dist_def upt_0_3 upt_0_2 sqrt_le_iff_sq
      noisy_R1_def noisy_R2_def pair_zeros_def)

lemma noisy_len: "len_arr noisy_R1 = Inr 2" "len_arr noisy_R2 = Inr 2"
  by (simp_all add: len_arr_def noisy_R1_def noisy_R2_def)

lemma noisy_adjacency:
  "mapE (adjacency 100) [pair_after noisy_R1] = Inr [coincident_adj]"
  "mapE (adjacency 100) [pair_after noisy_R2] = Inr [coincident_adj]"
  by (simp_all only: mapE.simps adjacency_def pair_after_get noisy_len pair_get bindE_Inr
      noisy_within full2_minus_eye)

lemma pair_bmat: "bmat_fast [coincident_adj] = Inr coincident_adj"
  unfolding coincident_adj_def by code_simp

lemma pair_graph_indices: "graph_indices coincident_adj = Inr pair_graph"
  unfolding coincident_adj_def pair_graph_def by code_simp

lemma pair_N: "mapE (\<lambda>e. bindE (dict_get e ''Z'') len_arr) [pair_after R] = Inr [2]"
  by (simp only: mapE.simps pair_after_get pair_get bindE_Inr)

lemma pair_seg: "np_repeat [0..<length [pair_after R]] [2] = [0, 0]"
  by (simp add: np_repeat_def numeral_2_eq_2)

lemma noisy_sel: "cutoff noisy = 100" "rand_cov noisy = 1" "rotate noisy = False"
  by (simp_all add: noisy_def)

lemma noisy_shape: "shape noisy_R1 = [2, 3]" "dtype_of noisy_R1 = DFloat" "shape noisy_R2 = [2, 3]" "dtype_of noisy_R2 = DFloat"
  by (simp_all add: noisy_R1_def noisy_R2_def)

lemma collate_noisy_1:
  "collate_data rrm noisy [coincident_pair] rng0
   = Inr (pair_batch noisy_R1, [pair_after noisy_R1], rng0\<lparr>pos := 6\<rparr>)"
proof -
  have "collate_data rrm noisy [coincident_pair] rng0
        = Inr (\<lparr>example_fields = pair_after noisy_R1, graph = pair_graph,
                 batch_seg = np_repeat [0..<length [pair_after noisy_R1]] [2]\<rparr>,
               [pair_after noisy_R1], rng0\<lparr>pos := 6\<rparr>)"
    by (rule collate_data_stages [OF pair_restore _ pair_fields _ pair_bmat pair_graph_indices pair_N])
       (simp_all only: noisy_sel pair_augment noisy_adjacency noisy_shape)
  then show ?thesis by (simp only: pair_seg pair_batch_def)
qed

lemma collate_noisy_2:
  "collate_data rrm noisy [coincident_pair] (rng0\<lparr>pos := 6\<rparr>)
   = Inr (pair_batch noisy_R2, [pair_after noisy_R2], rng0\<lparr>pos := 12\<rparr>)"
proof -
  have "collate_data rrm noisy [coincident_pair] (rng0\<lparr>pos := 6\<rparr>)
        = Inr (\<lparr>example_fields = pair_after noisy_R2, graph = pair_graph,
                 batch_seg = np_repeat [0..<length [pair_after noisy_R2]] [2]\<rparr>,
               [pair_after noisy_R2], rng0\<lparr>pos := 12\<rparr>)"
    by (rule collate_data_stages [OF pair_restore _ pair_fields _ pair_bmat pair_graph_indices pair_N])
       (simp_all only: noisy_sel pair_augment noisy_adjacency noisy_shape)
  then show ?thesis by (simp only: pair_seg pair_batch_def)
qed


section \<open>A rotation source that reads the generator\<close>

lemma spread_restore: "restore_shape [spread_pair] = Inr [spread_pair]"
  by (simp add: restore_shape_def restore_one_def dict_get_def reshape_m1_3_def spread_pair_def)

lemma spread_get:
  "dict_get spread_pair ''R'' = Inr (NDArray DFloat [2, 3] [0, 0, 0, 2, 0, 0])"
  by (simp add: spread_pair_def dict_get_def)

lemma spread_rotate:
  "random_rotate drawn_rotation (NDArray DFloat [2, 3] [0, 0, 0, 2, 0, 0]) rng0
   = (turned_R1, rng0\<lparr>pos := 1\<rparr>)"
  "random_rotate drawn_rotation (NDArray DFloat [2, 3] [0, 0, 0, 2, 0, 0]) (rng0\<lparr>pos := 7\<rparr>)
   = (turned_R2, rng0\<lparr>pos := 8\<rparr>)"
  by (simp_all add: random_rotate_def drawn_rotation_def rng0_def Let_def upt_0_3 upt_0_2
      turned_R1_def turned_R2_def)

lemma turned_set:
  "dict_set (dict_set (dict_set spread_pair ''R'' R) ''R_orig'' R) ''R'' R = turned_after R"
  by (simp add: spread_pair_def turned_after_def)

lemma turned_len: "len_arr turned_R1 = Inr 2" "len_arr turned_R2 = Inr 2"
  by (simp_all add: len_arr_def turned_R1_def turned_R2_def)

lemma turned_add:
  "arr_add turned_R1 (NDArray DFloat [2, 3] (replicate (2 * 3) 0)) = turned_R1"
  "arr_add turned_R2 (NDArray DFloat [2, 3] (replicate (2 * 3) 0)) = turned_R2"
  by (simp_all add: arr_add_zeros turned_R1_def turned_R2_def)

lemma turned_get:
  "dict_get (dict_set spread_pair ''R'' R) ''R'' = Inr R"
  "dict_get (turned_after R) ''R'' = Inr R"
  "dict_get (turned_after R) ''Z'' = Inr pair_Z"
  by (simp_all add: spread_pair_def turned_after_def dict_get_def)

lemma turned_pos:
  "rng0\<lparr>pos := 1\<rparr>\<lparr>pos := pos (rng0\<lparr>pos := 1\<rparr>) + 2 * 3\<rparr> = rng0\<lparr>pos := 7\<rparr>"
  "rng0\<lparr>pos := 8\<rparr>\<lparr>pos := pos (rng0\<lparr>pos := 8\<rparr>) + 2 * 3\<rparr> = rng0\<lparr>pos := 14\<rparr>"
  by simp_all

lemma spread_augment_one:
  "augment_one drawn_rotation True 0 spread_pair rng0
   = Inr (turned_after turned_R1, rng0\<lparr>pos := 7\<rparr>)"
  "augment_one drawn_rotation True 0 spread_pair (rng0\<lparr>pos := 7\<rparr>)
   = Inr (turned_after turned_R2, rng0\<lparr>pos := 14\<rparr>)"
  by (simp_all only: augment_one_def if_True bindE_Inr prod.case spread_get spread_rotate
      turned_get turned_len get_rand_norm_3d_zero turned_add turned_set turned_pos)

lemma spread_augment:
  "augment drawn_rotation True 0 [spread_pair] rng0
   = Inr ([turned_after turned_R1], rng0\<lparr>pos := 7\<rparr>)"
  "augment drawn_rotation True 0 [spread_pair] (rng0\<lparr>pos := 7\<rparr>)
   = Inr ([turned_after turned_R2], rng0\<lparr>pos := 14\<rparr>)"
  by (simp_all only: augment.simps spread_augment_one bindE_Inr prod.case)

lemma turned_fields:
  "shape R = [2, 3] \<Longrightarrow> dtype_of R = DFloat \<Longrightarrow> concat_fields [turned_after R] = Inr (turned_after R)"
  by (cases R) (simp add: concat_fields_def turned_after_def dict_get_def concat_stack_def
      np_concatenate_def atleast_1d_def pair_Z_def)

lemma turned_within:
  "within_cutoff turned_R1 100 2 = [[True, True], [True, True]]"
  "within_cutoff turned_R2 100 2 = [[True, True], [True, True]]"
  by (simp_all add: within_cutoff_def pair_dist_def upt_0_3 upt_0_2 sqrt_le_iff_sq
      turned_R1_def turned_R2_def)

lemma turned_adjacency:
  "mapE (adjacency 100) [turned_after turned_R1] = Inr [coincident_adj]"
  "mapE (adjacency 100) [turned_after turned_R2] = Inr [coincident_adj]"
  by (simp_all only: mapE.simps adjacency_def turned_get turned_len pair_get bindE_Inr
      turned_within full2_minus_eye)

lemma turned_N: "mapE (\<lambda>e. bindE (dict_get e ''Z'') len_arr) [turned_after R] = Inr [2]"
  by (simp only: mapE.simps turned_get pair_get bindE_Inr)

lemma turned_seg: "np_repeat [0..<length [turned_after R]] [2] = [0, 0]"
  by (simp add: np_repeat_def numeral_2_eq_2)

lemma turned_shape:
  "shape turned_R1 = [2, 3]" "dtype_of turned_R1 = DFloat"
  "shape turned_R2 = [2, 3]" "dtype_of turned_R2 = DFloat"
  by (simp_all add: turned_R1_def turned_R2_def)

lemma collate_turned_1:
  "collate_data drawn_rotation rotating [spread_pair] rng0
   = Inr (turned_batch turned_R1, [turned_after turned_R1], rng0\<lparr>pos := 7\<rparr>)"
proof -
  have "collate_data drawn_rotation rotating [spread_pair] rng0
        = Inr (\<lparr>example_fields = turned_after turned_R1, graph = pair_graph,
                 batch_seg = np_repeat [0..<length [turned_after turned_R1]] [2]\<rparr>,
               [turned_after turned_R1], rng0\<lparr>pos := 7\<rparr>)"
    by (rule collate_data_stages [OF spread_restore _ turned_fields _ pair_bmat pair_graph_indices turned_N])
       (simp_all only: rotating_sel spread_augment turned_adjacency turned_shape)
  then show ?thesis by (simp only: turned_seg turned_batch_def)
qed

lemma collate_turned_2:
  "collate_data drawn_rotation rotating [spread_pair] (rng0\<lparr>pos := 7\<rparr>)
   = Inr (turned_batch turned_R2, [turned_after turned_R2], rng0\<lparr>pos := 14\<rparr>)"
proof -
  have "collate_data drawn_rotation rotating [spread_pair] (rng0\<lparr>pos := 7\<rparr>)
        = Inr (\<lparr>example_fields = turned_after turned_R2, graph = pair_graph,
                 batch_seg = np_repeat [0..<length [turned_after turned_R2]] [2]\<rparr>,
               [turned_after turned_R2], rng0\<lparr>pos := 14\<rparr>)"
    by (rule collate_data_stages [OF spread_restore _ turned_fields _ pair_bmat pair_graph_indices turned_N])
       (simp_all only: rotating_sel spread_augment turned_adjacency turned_shape)
  then show ?thesis by (simp only: turned_seg turned_batch_def)
qed

lemma turned_batch_get: "dict_get (example_fields (turned_batch R)) ''R'' = Inr R"
  by (simp add: turned_batch_def turned_get)


section \<open>Dict objects updated in place\<close>

lemma reshape_idem:
  "reshape_m1_3 r = Inr r' \<Longrightarrow> reshape_m1_3 r' = Inr r'"
  by (auto simp: reshape_m1_3_def split: if_splits)

lemma restore_shape_objs_frame:
  assumes "restore_shape_objs objs as = Inr objs1"
  shows "(\<forall>a. a \<notin> set as \<longrightarrow> objs1 a = objs a) \<and>
         (\<forall>a k. k \<noteq> ''R'' \<longrightarrow> dict_get (objs1 a) k = dict_get (objs a) k) \<and>
         (\<forall>a \<in> set as. dict_get (objs1 a) ''R'' = bindE (dict_get (objs a) ''R'') reshape_m1_3)"
  using assms
proof (induction as arbitrary: objs)
  case Nil
  then show ?case by simp
next
  case (Cons a as)
  from Cons.prems obtain d where
    d: "restore_one (objs a) = Inr d" and
    r: "restore_shape_objs (objs(a := d)) as = Inr objs1"
    by (auto simp: bindE_eq_Inr)
  note IH = Cons.IH [OF r]
  from d obtain r0 r' where
    r0: "dict_get (objs a) ''R'' = Inr r0" and r': "reshape_m1_3 r0 = Inr r'" and
    dR: "dict_get d ''R'' = Inr r'"
    by (auto simp: restore_one_def bindE_eq_Inr dict_get_dict_set)
  have idem: "bindE (dict_get d ''R'') reshape_m1_3 = bindE (dict_get (objs a) ''R'') reshape_m1_3"
    using r0 r' dR reshape_idem [OF r'] by simp
  show ?case
  proof (intro conjI allI impI ballI)
    fix b assume "b \<notin> set (a # as)"
    then show "objs1 b = objs b" using IH by auto
  next
    fix b k assume k: "k \<noteq> ''R''"
    have "dict_get (objs1 b) k = dict_get ((objs(a := d)) b) k" using IH k by blast
    also have "\<dots> = dict_get (objs b) k"
      using restore_one_frame [OF d k] by simp
    finally show "dict_get (objs1 b) k = dict_get (objs b) k" .
  next
    fix b assume b: "b \<in> set (a # as)"
    show "dict_get (objs1 b) ''R'' = bindE (dict_get (objs b) ''R'') reshape_m1_3"
    proof (cases "b \<in> set as")
      case True
      then have "dict_get (objs1 b) ''R'' = bindE (dict_get ((objs(a := d)) b) ''R'') reshape_m1_3"
        using IH by blast
      then show ?thesis using idem by (cases "b = a") simp_all
    next
      case False
      then have "b = a" using b by simp
      moreover have "objs1 a = d" using IH False \<open>b = a\<close> by auto
      ultimately show ?thesis using dR r0 r' by simp
    qed
  qed
qed

lemma augment_objs_frame:
  assumes "augment_objs rrm rot cov objs as g = Inr (objs2, g')"
  shows "(\<forall>a. a \<notin> set as \<longrightarrow> objs2 a = objs a) \<and>
         (\<forall>a k. k \<noteq> ''R'' \<and> k \<noteq> ''R_orig'' \<longrightarrow> dict_get (objs2 a) k = dict_get (objs a) k) \<and>
         (\<forall>a \<in> set as. (\<exists>r. dict_get (objs2 a) ''R'' = Inr r) \<and>
                          (\<exists>r. dict_get (objs2 a) ''R_orig'' = Inr r)) \<and>
         (distinct as \<and> \<not> rot \<longrightarrow>
            (\<forall>a \<in> set as. dict_get (objs2 a) ''R_orig'' = dict_get (objs a) ''R''))"
  using assms
proof (induction as arbitrary: objs g)
  case Nil
  then show ?case by simp
next
  case (Cons a as)
  from Cons.prems obtain d g1 where
    d: "augment_one rrm rot cov (objs a) g = Inr (d, g1)" and
    r: "augment_objs rrm rot cov (objs(a := d)) as g1 = Inr (objs2, g')"
    by (auto simp: bindE_eq_Inr)
  note IH = Cons.IH [OF r]
  note f = augment_one_frame [OF d]
  show ?case
  proof (intro conjI allI impI ballI)
    fix b assume "b \<notin> set (a # as)"
    then show "objs2 b = objs b" using IH by auto
  next
    fix b k assume k: "k \<noteq> ''R'' \<and> k \<noteq> ''R_orig''"
    have "dict_get (objs2 b) k = dict_get ((objs(a := d)) b) k" using IH k by blast
    also have "\<dots> = dict_get (objs b) k"
      using f(1) [of k] k by simp
    finally show "dict_get (objs2 b) k = dict_get (objs b) k" .
  next
    fix b assume b: "b \<in> set (a # as)"
    have d2: "b \<notin> set as \<Longrightarrow> objs2 b = d"
      using IH b by auto
    show "\<exists>r. dict_get (objs2 b) ''R'' = Inr r"
      using IH d2 f(3) by (cases "b \<in> set as") auto
    show "\<exists>r. dict_get (objs2 b) ''R_orig'' = Inr r"
      using IH d2 f(2) by (cases "b \<in> set as") auto
  next
    fix b assume h: "distinct (a # as) \<and> \<not> rot" and b: "b \<in> set (a # as)"
    show "dict_get (objs2 b) ''R_orig'' = dict_get (objs b) ''R''"
    proof (cases "b \<in> set as")
      case True
      then have "b \<noteq> a" using h by auto
      moreover have "dict_get (objs2 b) ''R_orig'' = dict_get ((objs(a := d)) b) ''R''"
        using IH h True by auto
      ultimately show ?thesis by simp
    next
      case False
      then have "b = a" using b by simp
      moreover have "objs2 a = d" using IH False \<open>b = a\<close> by auto
      ultimately show ?thesis using f(4) h by simp
    qed
  qed
qed

lemma collate_objs_Inr:
  assumes "collate_objs rrm self objs as g = Inr (b, objs2, g')"
  shows "\<exists>objs1. restore_shape_objs objs as = Inr objs1 \<and>
           augment_objs rrm (rotate self) (rand_cov self) objs1 as g = Inr (objs2, g')"
  using assms by (auto simp: collate_objs_def bindE_eq_Inr)

lemma map_fun_upd_notin: "a \<notin> set as \<Longrightarrow> map (f(a := d)) as = map f as"
  by (induction as) auto

lemma restore_shape_objs_distinct:
  "distinct as \<Longrightarrow>
   restore_shape_objs objs as
   = bindE (restore_shape (map objs as)) (\<lambda>ds. Inr (write_back objs as ds))"
proof (induction as arbitrary: objs)
  case Nil
  then show ?case by (simp add: restore_shape_def)
next
  case (Cons a as)
  then have d: "distinct as" and n: "a \<notin> set as" by simp_all
  show ?case
  proof (cases "restore_one (objs a)")
    case (Inl x)
    then show ?thesis by (simp add: restore_shape_def)
  next
    case (Inr d')
    have ih: "restore_shape_objs (objs(a := d')) as
              = bindE (restore_shape (map objs as)) (\<lambda>ds. Inr (write_back (objs(a := d')) as ds))"
      unfolding Cons.IH [OF d] map_fun_upd_notin [OF n] ..
    show ?thesis
      by (cases "mapE restore_one (map objs as)")
         (simp_all add: Inr ih restore_shape_def)
  qed
qed

lemma augment_objs_distinct:
  "distinct as \<Longrightarrow>
   augment_objs rrm rot cov objs as g
   = bindE (augment rrm rot cov (map objs as) g) (\<lambda>(ds, g'). Inr (write_back objs as ds, g'))"
proof (induction as arbitrary: objs g)
  case Nil
  then show ?case by simp
next
  case (Cons a as)
  then have d: "distinct as" and n: "a \<notin> set as" by simp_all
  show ?case
  proof (cases "augment_one rrm rot cov (objs a) g")
    case (Inl x)
    then show ?thesis by simp
  next
    case (Inr p)
    obtain d' g1 where p: "p = (d', g1)" by (cases p)
    have ih: "augment_objs rrm rot cov (objs(a := d')) as g1
              = bindE (augment rrm rot cov (map objs as) g1)
                  (\<lambda>(ds, g'). Inr (write_back (objs(a := d')) as ds, g'))"
      unfolding Cons.IH [OF d] map_fun_upd_notin [OF n] ..
    show ?thesis
      by (cases "augment rrm rot cov (map objs as) g1")
         (auto simp: Inr p ih)
  qed
qed

lemma write_back_other:
  "a \<notin> set as \<Longrightarrow> write_back objs as ds a = objs a"
proof (induction as arbitrary: objs ds)
  case Nil
  then show ?case by simp
next
  case (Cons c cs)
  then show ?case by (cases ds) auto
qed

lemma map_write_back:
  "distinct as \<Longrightarrow> length ds = length as \<Longrightarrow> map (write_back objs as ds) as = ds"
proof (induction as arbitrary: objs ds)
  case Nil
  then show ?case by simp
next
  case (Cons a as)
  then obtain d ds' where ds: "ds = d # ds'" by (cases ds) auto
  have n: "a \<notin> set as" and d: "distinct as" and l: "length ds' = length as"
    using Cons.prems ds by simp_all
  have "write_back (objs(a := d)) as ds' a = d"
    by (simp add: write_back_other [OF n])
  moreover have "map (write_back (objs(a := d)) as ds') as = ds'"
    by (rule Cons.IH [OF d l])
  ultimately show ?case by (simp add: ds)
qed

lemma write_back_agree:
  "length ds = length as \<Longrightarrow> (\<forall>x. x \<notin> set as \<longrightarrow> f x = h x) \<Longrightarrow>
   write_back f as ds = write_back h as ds"
proof (induction as arbitrary: f h ds)
  case Nil
  then show ?case by auto
next
  case (Cons a as)
  then obtain d ds' where ds: "ds = d # ds'" by (cases ds) auto
  have "write_back (f(a := d)) as ds' = write_back (h(a := d)) as ds'"
    by (rule Cons.IH) (use Cons.prems ds in auto)
  then show ?case by (simp add: ds)
qed

lemma augment_length:
  "augment rrm rot cov es g = Inr (es', g') \<Longrightarrow> length es' = length es"
  using augment_Inr_nth by blast

lemma collate_objs_distinct:
  assumes "distinct examples"
  shows "collate_objs rrm self objs examples g
         = bindE (collate_data rrm self (map objs examples) g) (\<lambda>(b, ds, g').
             Inr (b, write_back objs examples ds, g'))"
proof (cases "restore_shape (map objs examples)")
  case (Inl x)
  then show ?thesis
    by (simp add: collate_objs_def collate_data_assemble restore_shape_objs_distinct [OF assms])
next
  case r: (Inr ds1)
  have l1: "length ds1 = length examples"
    using r by (auto simp: restore_shape_def dest: mapE_Inr_length)
  have m1: "map (write_back objs examples ds1) examples = ds1"
    by (rule map_write_back [OF assms l1])
  show ?thesis
  proof (cases "augment rrm (rotate self) (rand_cov self) ds1 g")
    case (Inl x)
    then show ?thesis
      by (simp add: collate_objs_def collate_data_assemble restore_shape_objs_distinct [OF assms]
          augment_objs_distinct [OF assms] r m1)
  next
    case (Inr p)
    obtain ds2 g2 where p: "p = (ds2, g2)" by (cases p)
    have l2: "length ds2 = length examples"
      using augment_length Inr p l1 by fastforce
    have m2: "map (write_back objs examples ds2) examples = ds2"
      by (rule map_write_back [OF assms l2])
    have w: "write_back (write_back objs examples ds1) examples ds2 = write_back objs examples ds2"
      by (rule write_back_agree [OF l2]) (simp add: write_back_other)
    show ?thesis
      by (cases "assemble (cutoff self) ds2")
         (simp_all add: collate_objs_def collate_data_assemble restore_shape_objs_distinct [OF assms]
          augment_objs_distinct [OF assms] r m1 Inr p m2 w)
  qed
qed

lemma collate_objs_triangle:
  "collate_objs rrm (no_augment 2) (\<lambda>a::nat. triangle) [0] g
   = Inr (triangle_batch, (\<lambda>a::nat. triangle)(0 := triangle_after), g\<lparr>pos := pos g + 9\<rparr>)"
proof -
  have d: "distinct [0::nat]" by simp
  show ?thesis
    unfolding collate_objs_distinct [OF d] by (simp add: collate_triangle)
qed

lemma noisy_second_round:
  "augment_one rrm False 1 (pair_after noisy_R1) (rng0\<lparr>pos := 6\<rparr>)
   = Inr (twice_noisy, rng0\<lparr>pos := 12\<rparr>)"
proof -
  have a: "arr_add noisy_R1 noisy_R2 = NDArray DFloat [2, 3] [8, 10, 12, 14, 16, 18]"
    by (simp add: arr_add_def noisy_R1_def noisy_R2_def)
  have s: "dict_set (dict_set (pair_after noisy_R1) ''R_orig'' noisy_R1) ''R''
             (NDArray DFloat [2, 3] [8, 10, 12, 14, 16, 18]) = twice_noisy"
    by (simp add: pair_after_def twice_noisy_def)
  show ?thesis
    by (simp only: augment_one_def if_False bindE_Inr prod.case pair_after_get noisy_len draws a s)
qed

lemma dict_listed_twice:
  "augment_objs rrm False 1 (\<lambda>a::nat. coincident_pair) [0, 0] rng0
     = Inr ((\<lambda>a::nat. coincident_pair)(0 := twice_noisy), rng0\<lparr>pos := 12\<rparr>) \<and>
   dict_get twice_noisy ''R_orig'' = Inr noisy_R1"
  by (simp add: pair_augment_one noisy_second_round) (simp add: twice_noisy_def dict_get_def)

lemma collate_objs_graph:
  assumes "collate_objs rrm self objs examples g = Inr (b, objs', g')"
  shows "\<exists>A lens. adj_ok A lens \<and> graph_indices A = Inr (graph b)"
proof -
  from assms obtain ex2 mats A gr where
    m: "mapE (adjacency (cutoff self)) ex2 = Inr mats" and
    A: "bmat_fast mats = Inr A" and
    gr: "graph_indices A = Inr gr" and b: "graph b = gr"
    by (auto simp: collate_objs_def assemble_def bindE_eq_Inr)
  have "\<forall>m \<in> set mats. \<exists>lens. adj_ok m lens"
    using mapE_Inr_set [OF m] adjacency_ok by blast
  then obtain lens where "adj_ok A lens"
    using bmat_fast_ok [OF _ A] by blast
  then show ?thesis using gr b by blast
qed

lemma triplets_on_dict_objects:
  assumes "collate_objs rrm self objs examples g = Inr (b, objs', g')"
    and "t < length (id3dnb_k (graph b))"
  shows "id3dnb_k (graph b) ! t \<noteq> id3dnb_i (graph b) ! t"
    and "id_expand_kj (graph b) ! t < length (idnb_i (graph b)) \<and>
         idnb_i (graph b) ! (id_expand_kj (graph b) ! t) = id3dnb_j (graph b) ! t \<and>
         idnb_j (graph b) ! (id_expand_kj (graph b) ! t) = id3dnb_k (graph b) ! t"
    and "id_reduce_ji (graph b) ! t < length (idnb_i (graph b)) \<and>
         idnb_i (graph b) ! (id_reduce_ji (graph b) ! t) = id3dnb_i (graph b) ! t \<and>
         idnb_j (graph b) ! (id_reduce_ji (graph b) ! t) = id3dnb_j (graph b) ! t"
proof -
  from collate_objs_graph [OF assms(1)] obtain A lens where
    ok: "adj_ok A lens" and gr: "graph_indices A = Inr (graph b)"
    by blast
  show "id3dnb_k (graph b) ! t \<noteq> id3dnb_i (graph b) ! t"
    by (rule graph_triplets(6) [OF ok gr assms(2)])
  show "id_expand_kj (graph b) ! t < length (idnb_i (graph b)) \<and>
         idnb_i (graph b) ! (id_expand_kj (graph b) ! t) = id3dnb_j (graph b) ! t \<and>
         idnb_j (graph b) ! (id_expand_kj (graph b) ! t) = id3dnb_k (graph b) ! t"
    by (rule graph_triplets(7) [OF ok gr assms(2)])
  show "id_reduce_ji (graph b) ! t < length (idnb_i (graph b)) \<and>
         idnb_i (graph b) ! (id_reduce_ji (graph b) ! t) = id3dnb_i (graph b) ! t \<and>
         idnb_j (graph b) ! (id_reduce_ji (graph b) ! t) = id3dnb_j (graph b) ! t"
    by (rule graph_triplets(8) [OF ok gr assms(2)])
qed


section \<open>A batch with an empty structure\<close>

lemma mixed_restore:
  "restore_shape [empty_structure, coincident_pair]
   = Inr [[(''R'', NDArray DFloat [0, 3] []), (''Z'', NDArray DInt [0] [])], coincident_pair]"
  by (simp add: restore_shape_def restore_one_def dict_get_def reshape_m1_3_def
      coincident_pair_def empty_structure_def)

lemma empty_augment_one:
  "augment_one rrm False 0 [(''R'', NDArray DFloat [0, 3] []), (''Z'', NDArray DInt [0] [])] g
   = Inr (empty_after, g\<lparr>pos := pos g + 0 * 3\<rparr>)"
  by (simp add: augment_one_plain [where n = 0 and R = "NDArray DFloat [0, 3] []"]
      dict_get_def empty_after_def)

lemma pair_augment_one_plain:
  "augment_one rrm False 0 coincident_pair g = Inr (pair_after pair_zeros, g\<lparr>pos := pos g + 2 * 3\<rparr>)"
proof -
  have "augment_one rrm False 0 coincident_pair g
        = Inr (dict_set (dict_set coincident_pair ''R_orig'' pair_zeros) ''R''
                 (NDArray DFloat [2, 3] (flat pair_zeros)), g\<lparr>pos := pos g + 2 * 3\<rparr>)"
    by (rule augment_one_plain) (simp_all add: pair_get pair_zeros_def)
  also have "NDArray DFloat [2, 3] (flat pair_zeros) = pair_zeros"
    by (simp add: pair_zeros_def)
  finally show ?thesis by (simp only: pair_set)
qed

lemma mixed_augment:
  "augment rrm False 0 [[(''R'', NDArray DFloat [0, 3] []), (''Z'', NDArray DInt [0] [])], coincident_pair] g
   = Inr ([empty_after, pair_after pair_zeros], g\<lparr>pos := pos g + 6\<rparr>)"
  by (simp only: augment.simps empty_augment_one pair_augment_one_plain bindE_Inr prod.case) simp

lemma mixed_concat:
  "concat_fields [empty_after, pair_after pair_zeros] = Inr mixed_fields"
  by (simp add: concat_fields_def empty_after_def pair_after_def dict_get_def concat_stack_def
      np_concatenate_def atleast_1d_def pair_Z_def pair_zeros_def mixed_fields_def)

lemma zero_atom_adjacency:
  assumes "dict_get e ''R'' = Inr R" and "len_arr R = Inr 0"
    and "dict_get e ''Z'' = Inr Z" and "len_arr Z = Inr 0"
  shows "adjacency c e = Inr empty_adj"
  using assms
  by (simp add: adjacency_def csr_sub_bool_def within_cutoff_def csr_matrix_dense_def
      empty_adj_def cumsum_def)

lemma zero_atom_restore:
  assumes "dict_get e ''R'' = Inr R" and "flat R = []"
  shows "restore_one e = Inr (dict_set e ''R'' (NDArray (dtype_of R) [0, 3] []))"
  using assms by (simp add: restore_one_def reshape_m1_3_def)

lemma zero_atom_augment:
  assumes "dict_get e ''R'' = Inr R" and "shape R = [0, 3]" and "flat R = []"
  shows "\<exists>e' g'. augment_one rrm rot cov e g = Inr (e', g') \<and>
           dict_get e' ''R'' = Inr (NDArray DFloat [0, 3] []) \<and>
           dict_get e' ''Z'' = dict_get e ''Z''"
proof (cases rot)
  case False
  then show ?thesis
    using assms
    by (simp add: augment_one_def len_arr_def get_rand_norm_3d_def standard_normal_def
        arr_add_def dict_get_dict_set)
next
  case True
  obtain M g1 where m: "rrm g = (M, g1)" by (cases "rrm g")
  show ?thesis
    using assms True m
    by (simp add: augment_one_def random_rotate_def len_arr_def get_rand_norm_3d_def
        standard_normal_def arr_add_def dict_get_dict_set)
qed

lemma empty_after_adjacency: "adjacency c empty_after = Inr empty_adj"
  by (rule zero_atom_adjacency [where R = "NDArray DFloat [0, 3] []" and Z = "NDArray DInt [0] []"])
     (simp_all add: empty_after_def dict_get_def len_arr_def)

lemma pair_zeros_adjacency: "adjacency 2 (pair_after pair_zeros) = Inr coincident_adj"
  by (simp only: adjacency_def pair_after_get pair_get bindE_Inr noisy_within full2_minus_eye)

lemma mixed_adjacency:
  "mapE (adjacency 2) [empty_after, pair_after pair_zeros] = Inr [empty_adj, coincident_adj]"
  by (simp only: mapE.simps empty_after_adjacency pair_zeros_adjacency bindE_Inr)

lemma mixed_bmat: "bmat_fast [empty_adj, coincident_adj] = Inr coincident_adj"
  unfolding coincident_adj_def empty_adj_def by code_simp

lemma mixed_N:
  "mapE (\<lambda>e. bindE (dict_get e ''Z'') len_arr) [empty_after, pair_after pair_zeros] = Inr [0, 2]"
  by (simp add: empty_after_def dict_get_def len_arr_def pair_after_def pair_Z_def)

lemma mixed_seg: "np_repeat [0..<length [empty_after, pair_after pair_zeros]] [0, 2] = [1, 1]"
  by (simp add: np_repeat_def numeral_2_eq_2 upt_rec)

lemma collate_mixed:
  "collate_data rrm (no_augment 2) [empty_structure, coincident_pair] g
   = Inr (\<lparr>example_fields = mixed_fields, graph = pair_graph, batch_seg = [1, 1]\<rparr>,
          [empty_after, pair_after pair_zeros], g\<lparr>pos := pos g + 6\<rparr>)"
proof -
  have "collate_data rrm (no_augment 2) [empty_structure, coincident_pair] g
        = Inr (\<lparr>example_fields = mixed_fields, graph = pair_graph,
                 batch_seg = np_repeat [0..<length [empty_after, pair_after pair_zeros]] [0, 2]\<rparr>,
               [empty_after, pair_after pair_zeros], g\<lparr>pos := pos g + 6\<rparr>)"
    by (rule collate_data_stages [OF mixed_restore _ mixed_concat _ mixed_bmat pair_graph_indices mixed_N])
       (simp_all only: no_augment_sel mixed_augment mixed_adjacency)
  then show ?thesis by (simp only: mixed_seg)
qed

lemma bmat_indices_rec:
  "concat (map (\<lambda>i. map (\<lambda>c. c + (a # cumsum_from a (map nrows mats)) ! i) (indices (mats ! i)))
               [0..<length mats])
   = shifted_indices a mats"
proof (induction mats arbitrary: a)
  case Nil
  then show ?case by simp
next
  case (Cons m ms)
  have "concat (map (\<lambda>i. map (\<lambda>c. c + (a # cumsum_from a (map nrows (m # ms))) ! i)
                           (indices ((m # ms) ! i))) [0..<length (m # ms)])
        = map (\<lambda>c. c + a) (indices m)
          @ concat (map (\<lambda>i. map (\<lambda>c. c + ((a + nrows m) # cumsum_from (a + nrows m) (map nrows ms)) ! i)
                                  (indices (ms ! i))) [0..<length ms])"
    by (simp add: map_upt_Suc del: upt_Suc)
  then show ?case by (simp only: Cons shifted_indices.simps)
qed

lemma bmat_indptr_rec:
  "concat (map (\<lambda>i. map (\<lambda>p. p + (a # cumsum_from a (map nnz mats)) ! i)
                        (drop (if i + k \<ge> 1 then 1 else 0) (indptr (mats ! i))))
               [0..<length mats])
   = shifted_indptr (k = 0) a mats"
proof (induction mats arbitrary: a k)
  case Nil
  then show ?case by simp
next
  case (Cons m ms)
  have "concat (map (\<lambda>i. map (\<lambda>p. p + (a # cumsum_from a (map nnz (m # ms))) ! i)
                        (drop (if i + k \<ge> 1 then 1 else 0) (indptr ((m # ms) ! i))))
               [0..<length (m # ms)])
        = map (\<lambda>p. p + a) (drop (if k = 0 then 0 else 1) (indptr m))
          @ concat (map (\<lambda>i. map (\<lambda>p. p + ((a + nnz m) # cumsum_from (a + nnz m) (map nnz ms)) ! i)
                        (drop (if i + Suc k \<ge> 1 then 1 else 0) (indptr (ms ! i))))
               [0..<length ms])"
    by (simp add: map_upt_Suc del: upt_Suc)
  then show ?case by (simp only: Cons shifted_indptr.simps) simp
qed

lemma bmat_fast_rec:
  "bmat_fast mats =
     (if mats = [] then Inl ValueError
      else csr_matrix (concat (map data mats)) (shifted_indices 0 mats) (shifted_indptr True 0 mats) None)"
proof -
  have i: "concat (map (\<lambda>i. map (\<lambda>c. c + (0 # cumsum (map nrows mats)) ! i) (indices (mats ! i)))
               [0..<length mats]) = shifted_indices 0 mats"
    unfolding cumsum_def by (rule bmat_indices_rec)
  have "concat (map (\<lambda>i. map (\<lambda>p. p + (0 # cumsum_from 0 (map nnz mats)) ! i)
                        (drop (if i + 0 \<ge> 1 then 1 else 0) (indptr (mats ! i))))
               [0..<length mats]) = shifted_indptr (0 = (0::nat)) 0 mats"
    by (rule bmat_indptr_rec)
  then have p: "concat (map (\<lambda>i. map (\<lambda>p. p + (0 # cumsum (map nnz mats)) ! i)
                        (drop (if i \<ge> 1 then 1 else 0) (indptr (mats ! i))))
               [0..<length mats]) = shifted_indptr True 0 mats"
    by (simp add: cumsum_def)
  show ?thesis
    by (simp only: bmat_fast_def Let_def i p)
qed

lemma empty_adj_sel:
  "nrows empty_adj = 0" "nnz empty_adj = 0" "indices empty_adj = []" "indptr empty_adj = [0]"
  "data empty_adj = []"
  by (simp_all add: empty_adj_def nnz_def)

lemma shifted_indices_skip:
  "shifted_indices off (ms1 @ empty_adj # ms2) = shifted_indices off (ms1 @ ms2)"
  by (induction ms1 arbitrary: off) (simp_all add: empty_adj_sel)

lemma shifted_indptr_skip_later:
  "shifted_indptr False off (ms1 @ empty_adj # ms2) = shifted_indptr False off (ms1 @ ms2)"
  by (induction ms1 arbitrary: off) (simp_all add: empty_adj_sel)

lemma shifted_indptr_skip:
  assumes "ms1 = [] \<longrightarrow> ms2 \<noteq> [] \<and> indptr (hd ms2) \<noteq> [] \<and> hd (indptr (hd ms2)) = 0"
  shows "shifted_indptr True off (ms1 @ empty_adj # ms2) = shifted_indptr True off (ms1 @ ms2)"
proof (cases ms1)
  case Nil
  then obtain m ms where ms2: "ms2 = m # ms" using assms by (cases ms2) auto
  obtain p where p: "indptr m = 0 # p"
    using assms Nil ms2 by (cases "indptr m") auto
  show ?thesis by (simp add: Nil ms2 p empty_adj_sel)
next
  case (Cons m ms)
  then show ?thesis by (simp add: shifted_indptr_skip_later)
qed

lemma bmat_fast_skips_empty:
  assumes "ms1 @ ms2 \<noteq> []"
    and "ms1 = [] \<longrightarrow> indptr (hd ms2) \<noteq> [] \<and> hd (indptr (hd ms2)) = 0"
  shows "bmat_fast (ms1 @ empty_adj # ms2) = bmat_fast (ms1 @ ms2)"
proof -
  have a: "ms1 = [] \<longrightarrow> ms2 \<noteq> [] \<and> indptr (hd ms2) \<noteq> [] \<and> hd (indptr (hd ms2)) = 0"
    using assms by auto
  have d: "concat (map data (ms1 @ empty_adj # ms2)) = concat (map data (ms1 @ ms2))"
    by (simp add: empty_adj_sel)
  show ?thesis
    using assms(1)
    by (simp only: bmat_fast_rec [of "ms1 @ empty_adj # ms2"] bmat_fast_rec [of "ms1 @ ms2"]
        shifted_indices_skip shifted_indptr_skip [OF a] d) simp
qed


section \<open>The claims\<close>

text \<open>
  C2. For every batch the call assembles and every surviving triplet \<open>t\<close>, the entry
  \<open>id_expand_kj ! t\<close> is a valid edge id, and that edge has the triplet's middle atom
  \<open>id3dnb_j ! t\<close> as its target and the triplet's outermost atom \<open>id3dnb_k ! t\<close> as its
  source.
\<close>

theorem id_expand_kj_is_inner_edge:
  assumes "collate_data rrm self examples g = Inr (b, exs, g')"
    and "t < length (id3dnb_k (graph b))"
  shows "length (id_expand_kj (graph b)) = length (id3dnb_k (graph b)) \<and>
         length (idnb_j (graph b)) = length (idnb_i (graph b)) \<and>
         id_expand_kj (graph b) ! t < length (idnb_i (graph b)) \<and>
         idnb_i (graph b) ! (id_expand_kj (graph b) ! t) = id3dnb_j (graph b) ! t \<and>
         idnb_j (graph b) ! (id_expand_kj (graph b) ! t) = id3dnb_k (graph b) ! t"
proof -
  from collate_data_graph [OF assms(1)] obtain A lens where
    ok: "adj_ok A lens" and gr: "graph_indices A = Inr (graph b)"
    by blast
  show ?thesis
    using graph_triplets(3,5,7) [OF ok gr] assms(2) by simp
qed

theorem id_expand_kj_is_inner_edge_witness:
  "collate_data identity_rotation (no_augment 2) [triangle] rng0
     = Inr (triangle_batch, [triangle_after], rng0\<lparr>pos := pos rng0 + 9\<rparr>) \<and>
   (3::nat) < length (id3dnb_k (graph triangle_batch)) \<and>
   id_expand_kj (graph triangle_batch) ! 3 = 4 \<and>
   idnb_i (graph triangle_batch) ! 4 = id3dnb_j (graph triangle_batch) ! 3 \<and>
   idnb_j (graph triangle_batch) ! 4 = id3dnb_k (graph triangle_batch) ! 3"
proof -
  have c: "collate_data identity_rotation (no_augment 2) [triangle] rng0
           = Inr (triangle_batch, [triangle_after], rng0\<lparr>pos := pos rng0 + 9\<rparr>)"
    by (rule collate_triangle)
  have t: "(3::nat) < length (id3dnb_k (graph triangle_batch))"
    by (simp add: triangle_batch_def triangle_graph_def)
  show ?thesis
    using c t id_expand_kj_is_inner_edge [OF c t]
    by (simp add: triangle_batch_def triangle_graph_def)
qed


text \<open>
  C4. For every batch the call assembles, the three triplet arrays have one length, every
  triplet \<open>t\<close> has \<open>id3dnb_k ! t \<noteq> id3dnb_i ! t\<close>, and entry \<open>t\<close> describes one
  path: \<open>(id3dnb_i ! t, id3dnb_j ! t)\<close> and \<open>(id3dnb_j ! t, id3dnb_k ! t)\<close> are both
  (target, source) pairs of the edge arrays.
\<close>

theorem triplets_parallel_and_not_degenerate:
  assumes "collate_data rrm self examples g = Inr (b, exs, g')"
    and "t < length (id3dnb_k (graph b))"
  shows "length (id3dnb_i (graph b)) = length (id3dnb_k (graph b)) \<and>
         length (id3dnb_j (graph b)) = length (id3dnb_k (graph b)) \<and>
         id3dnb_k (graph b) ! t \<noteq> id3dnb_i (graph b) ! t \<and>
         (id3dnb_i (graph b) ! t, id3dnb_j (graph b) ! t)
           \<in> set (zip (idnb_i (graph b)) (idnb_j (graph b))) \<and>
         (id3dnb_j (graph b) ! t, id3dnb_k (graph b) ! t)
           \<in> set (zip (idnb_i (graph b)) (idnb_j (graph b)))"
proof -
  from collate_data_graph [OF assms(1)] obtain A lens where
    ok: "adj_ok A lens" and gr: "graph_indices A = Inr (graph b)"
    by blast
  note f = graph_triplets [OF ok gr]
  let ?E = "zip (idnb_i (graph b)) (idnb_j (graph b))"
  have mem: "(idnb_i (graph b) ! e, idnb_j (graph b) ! e) \<in> set ?E"
    if "e < length (idnb_i (graph b))" for e
  proof -
    have l: "e < length ?E" using that f(5) by simp
    have a: "?E ! e \<in> set ?E" using l by (rule nth_mem)
    have b: "?E ! e = (idnb_i (graph b) ! e, idnb_j (graph b) ! e)"
      using that f(5) by simp
    show ?thesis using a unfolding b .
  qed
  have outer: "(id3dnb_i (graph b) ! t, id3dnb_j (graph b) ! t) \<in> set ?E"
    using f(8) [OF assms(2)] mem [of "id_reduce_ji (graph b) ! t"] by simp
  have inner: "(id3dnb_j (graph b) ! t, id3dnb_k (graph b) ! t) \<in> set ?E"
    using f(7) [OF assms(2)] mem [of "id_expand_kj (graph b) ! t"] by simp
  show ?thesis
    using f(1,2) f(6) [OF assms(2)] outer inner by simp
qed

theorem triplets_parallel_and_not_degenerate_witness:
  "collate_data identity_rotation (no_augment 2) [triangle] rng0
     = Inr (triangle_batch, [triangle_after], rng0\<lparr>pos := pos rng0 + 9\<rparr>) \<and>
   (0::nat) < length (id3dnb_k (graph triangle_batch)) \<and>
   length (id3dnb_i (graph triangle_batch)) = 6 \<and>
   length (id3dnb_j (graph triangle_batch)) = 6 \<and>
   length (id3dnb_k (graph triangle_batch)) = 6 \<and>
   id3dnb_k (graph triangle_batch) ! 0 \<noteq> id3dnb_i (graph triangle_batch) ! 0"
proof -
  have c: "collate_data identity_rotation (no_augment 2) [triangle] rng0
           = Inr (triangle_batch, [triangle_after], rng0\<lparr>pos := pos rng0 + 9\<rparr>)"
    by (rule collate_triangle)
  have t: "(0::nat) < length (id3dnb_k (graph triangle_batch))"
    by (simp add: triangle_batch_def triangle_graph_def)
  show ?thesis
    using c t triplets_parallel_and_not_degenerate [OF c t]
    by (simp add: triangle_batch_def triangle_graph_def)
qed

text \<open>
  C1, as stated: \<open>id_reduce_ji ! t\<close> is the local rank of the triplet's outer edge among
  the edges with the same source atom. It fails on the triangle: triplet 5 has the outer
  edge 5 (target 2, source 1), whose local rank is 1 in a group of 2 edges, and
  \<open>id_reduce_ji ! 5\<close> is 5.
\<close>

theorem id_reduce_ji_local_rank_counterexample:
  "collate_data identity_rotation (no_augment 2) [triangle] rng0
     = Inr (triangle_batch, [triangle_after], rng0\<lparr>pos := pos rng0 + 9\<rparr>) \<and>
   idnb_i (graph triangle_batch) ! 5 = id3dnb_i (graph triangle_batch) ! 5 \<and>
   idnb_j (graph triangle_batch) ! 5 = id3dnb_j (graph triangle_batch) ! 5 \<and>
   local_rank (idnb_j (graph triangle_batch)) 5 = 1 \<and>
   length (filter (\<lambda>s. s = idnb_j (graph triangle_batch) ! 5) (idnb_j (graph triangle_batch))) = 2 \<and>
   id_reduce_ji (graph triangle_batch) ! 5 = 5"
proof -
  have "local_rank [1, 2, 0, 2, 0, 1] 5 = 1"
    by code_simp
  then show ?thesis
    by (simp add: collate_triangle triangle_batch_def triangle_graph_def)
qed

text \<open>
  C1, amended: for every batch the call assembles and every surviving triplet \<open>t\<close>, the
  entry \<open>id_reduce_ji ! t\<close> is the global edge id of the triplet's outer edge: a valid
  index into the edge arrays whose target is \<open>id3dnb_i ! t\<close> and whose source is
  \<open>id3dnb_j ! t\<close>.
\<close>

theorem id_reduce_ji_is_outer_edge:
  assumes "collate_data rrm self examples g = Inr (b, exs, g')"
    and "t < length (id3dnb_k (graph b))"
  shows "length (id_reduce_ji (graph b)) = length (id3dnb_k (graph b)) \<and>
         id_reduce_ji (graph b) ! t < length (idnb_i (graph b)) \<and>
         idnb_i (graph b) ! (id_reduce_ji (graph b) ! t) = id3dnb_i (graph b) ! t \<and>
         idnb_j (graph b) ! (id_reduce_ji (graph b) ! t) = id3dnb_j (graph b) ! t"
proof -
  from collate_data_graph [OF assms(1)] obtain A lens where
    ok: "adj_ok A lens" and gr: "graph_indices A = Inr (graph b)"
    by blast
  show ?thesis
    using graph_triplets(4,8) [OF ok gr] assms(2) by simp
qed

theorem id_reduce_ji_is_outer_edge_witness:
  "collate_data identity_rotation (no_augment 2) [triangle] rng0
     = Inr (triangle_batch, [triangle_after], rng0\<lparr>pos := pos rng0 + 9\<rparr>) \<and>
   (5::nat) < length (id3dnb_k (graph triangle_batch)) \<and>
   id_reduce_ji (graph triangle_batch) ! 5 = 5 \<and>
   idnb_i (graph triangle_batch) ! 5 = id3dnb_i (graph triangle_batch) ! 5 \<and>
   idnb_j (graph triangle_batch) ! 5 = id3dnb_j (graph triangle_batch) ! 5"
proof -
  have c: "collate_data identity_rotation (no_augment 2) [triangle] rng0
           = Inr (triangle_batch, [triangle_after], rng0\<lparr>pos := pos rng0 + 9\<rparr>)"
    by (rule collate_triangle)
  have t: "(5::nat) < length (id3dnb_k (graph triangle_batch))"
    by (simp add: triangle_batch_def triangle_graph_def)
  show ?thesis
    using c t id_reduce_ji_is_outer_edge [OF c t]
    by (simp add: triangle_batch_def triangle_graph_def)
qed

text \<open>
  C6. One structure of three atoms at the corners of an equilateral triangle of side 1,
  cutoff 2, no augmentation: the call returns 6 directed edges and 6 triplets, one for
  each edge in edge order (\<open>id_reduce_ji\<close> is 0 to 5), and the \<open>k\<close> of each triplet is
  the atom that is neither the \<open>i\<close> nor the \<open>j\<close> of its edge. This holds for every
  generator state and every rotation source.
\<close>

theorem triangle_six_edges_six_triplets:
  "collate_data rrm (no_augment 2) [triangle] g
     = Inr (triangle_batch, [triangle_after], g\<lparr>pos := pos g + 9\<rparr>) \<and>
   idnb_i (graph triangle_batch) = [0, 0, 1, 1, 2, 2] \<and>
   idnb_j (graph triangle_batch) = [1, 2, 0, 2, 0, 1] \<and>
   length (idnb_i (graph triangle_batch)) = 6 \<and>
   id3dnb_i (graph triangle_batch) = idnb_i (graph triangle_batch) \<and>
   id3dnb_j (graph triangle_batch) = idnb_j (graph triangle_batch) \<and>
   id3dnb_k (graph triangle_batch) = [2, 1, 2, 0, 1, 0] \<and>
   length (id3dnb_k (graph triangle_batch)) = 6 \<and>
   id_reduce_ji (graph triangle_batch) = [0, 1, 2, 3, 4, 5] \<and>
   id_expand_kj (graph triangle_batch) = [3, 5, 1, 4, 0, 2]"
  by (simp add: collate_triangle triangle_batch_def triangle_graph_def)






text \<open>
  C3 on the code: with cutoff -1 no distance passes the test, the stored matrix is empty,
  and subtracting the identity stores the diagonal. One atom at the origin gets the edge
  from itself to itself: \<open>idnb_i = [0]\<close> and \<open>idnb_j = [0]\<close>.
\<close>

theorem negative_cutoff_self_loop:
  "collate_data rrm (no_augment (- 1)) [single_atom] g
   = Inr (\<lparr>example_fields = single_atom_after,
            graph = \<lparr>idnb_i = [0], idnb_j = [0], id3dnb_i = [], id3dnb_j = [], id3dnb_k = [],
                      id_expand_kj = [], id_reduce_ji = []\<rparr>,
            batch_seg = [0]\<rparr>,
          [single_atom_after], g\<lparr>pos := pos g + 3\<rparr>)"
proof -
  have "collate_data rrm (no_augment (- 1)) [single_atom] g
        = Inr (\<lparr>example_fields = single_atom_after,
                 graph = \<lparr>idnb_i = [0], idnb_j = [0], id3dnb_i = [], id3dnb_j = [],
                           id3dnb_k = [], id_expand_kj = [], id_reduce_ji = []\<rparr>,
                 batch_seg = np_repeat [0..<length [single_atom_after]] [1]\<rparr>,
               [single_atom_after], g\<lparr>pos := pos g + 3\<rparr>)"
    by (rule collate_data_stages [OF single_restore _ single_fields _ single_bmat(1)
          self_loop_graph single_N])
       (simp_all only: no_augment_sel single_augment single_adjacency_list)
  then show ?thesis by (simp only: single_seg)
qed

text \<open>
  C5 on the code: \<^verbatim>\<open>_bmat_fast\<close> passes no shape, so the constructor infers the
  column count from the largest stored column index. The matrix of one atom stores
  nothing and the call raises ValueError, which ends the whole assembly of that batch;
  for three atoms of which the last has no neighbour the result has 3 rows and 2
  columns. The reference block-diagonal matrix is 1 by 1 and 3 by 3.
\<close>

theorem bmat_fast_shape_not_block_diagonal:
  "adjacency 2 single_atom_after = Inr lonely_adj \<and>
   bmat_fast [lonely_adj] = Inl ValueError \<and>
   bmat_reference [lonely_adj] = lonely_adj \<and>
   collate_data rrm (no_augment 2) [single_atom] g = Inl ValueError \<and>
   bmat_fast [isolated_third_adj]
     = Inr \<lparr>data = [True, True], indices = [1, 0], indptr = [0, 1, 2, 2], nrows = 3, ncols = 2\<rparr> \<and>
   bmat_reference [isolated_third_adj] = isolated_third_adj"
proof -
  have a: "bmat_reference [lonely_adj] = lonely_adj"
    unfolding lonely_adj_def by code_simp
  have b: "bmat_fast [isolated_third_adj]
           = Inr \<lparr>data = [True, True], indices = [1, 0], indptr = [0, 1, 2, 2], nrows = 3, ncols = 2\<rparr>"
    unfolding isolated_third_adj_def by code_simp
  have c: "bmat_reference [isolated_third_adj] = isolated_third_adj"
    unfolding isolated_third_adj_def by code_simp
  have d: "collate_data rrm (no_augment 2) [single_atom] g = Inl ValueError"
    by (rule collate_data_merge_error [OF single_restore _ single_fields _ single_bmat(2)])
       (simp_all only: no_augment_sel single_augment single_adjacency_list)
  show ?thesis
    using a b c d by (simp add: single_adjacency single_bmat)
qed


text \<open>
  C10, as stated: a call leaves the input records unchanged. It fails on the triangle:
  the dict had no field \<open>R_orig\<close> and a flat \<open>R\<close> of shape 9; after the call the same
  dict has \<open>R_orig\<close>, and its \<open>R\<close> has shape 3 by 3.
\<close>

theorem input_records_unchanged_counterexample:
  "collate_objs identity_rotation (no_augment 2) (\<lambda>a::nat. triangle) [0] rng0
     = Inr (triangle_batch, (\<lambda>a::nat. triangle)(0 := triangle_after), rng0\<lparr>pos := pos rng0 + 9\<rparr>) \<and>
   dict_get triangle ''R_orig'' = Inl KeyError \<and>
   dict_get (((\<lambda>a::nat. triangle)(0 := triangle_after)) 0) ''R_orig'' = Inr triangle_R \<and>
   shape triangle_R = [3, 3] \<and>
   dict_get triangle ''R''
     = Inr (NDArray DFloat [9] [0, 0, 0, 1, 0, 0, 1 / 2, sqrt 3 / 2, 0]) \<and>
   dict_get (((\<lambda>a::nat. triangle)(0 := triangle_after)) 0) ''R'' = Inr triangle_R"
proof -
  have "dict_get triangle ''R_orig'' = Inl KeyError"
    "dict_get (((\<lambda>a::nat. triangle)(0 := triangle_after)) 0) ''R_orig'' = Inr triangle_R"
    "shape triangle_R = [3, 3]"
    "dict_get triangle ''R''
       = Inr (NDArray DFloat [9] [0, 0, 0, 1, 0, 0, 1 / 2, sqrt 3 / 2, 0])"
    "dict_get (((\<lambda>a::nat. triangle)(0 := triangle_after)) 0) ''R'' = Inr triangle_R"
    by (simp_all add: triangle_def triangle_after_def dict_get_def triangle_R_def)
  then show ?thesis
    using collate_objs_triangle [of identity_rotation rng0] by (intro conjI)
qed

text \<open>
  C10, amended: a successful call updates the listed dicts in place and changes nothing
  else. A dict that is not in the list is as it was; in every dict every field other
  than \<open>R\<close> and \<open>R_orig\<close> is as it was (none is added, removed or overwritten); every
  listed dict has \<open>R\<close> and \<open>R_orig\<close> afterwards; and when the listed dicts are
  distinct objects and \<open>rotate\<close> is False, \<open>R_orig\<close> is the input \<open>R\<close> reshaped to one
  row per atom.
\<close>

theorem input_dicts_updated_in_place:
  assumes "collate_objs rrm self objs examples g = Inr (b, objs', g')"
  shows "(\<forall>a. a \<notin> set examples \<longrightarrow> objs' a = objs a) \<and>
         (\<forall>a k. k \<noteq> ''R'' \<and> k \<noteq> ''R_orig'' \<longrightarrow> dict_get (objs' a) k = dict_get (objs a) k) \<and>
         (\<forall>a \<in> set examples. (\<exists>r. dict_get (objs' a) ''R'' = Inr r) \<and>
                                (\<exists>r. dict_get (objs' a) ''R_orig'' = Inr r)) \<and>
         (distinct examples \<and> \<not> rotate self \<longrightarrow>
            (\<forall>a \<in> set examples.
               dict_get (objs' a) ''R_orig'' = bindE (dict_get (objs a) ''R'') reshape_m1_3))"
proof -
  from collate_objs_Inr [OF assms] obtain objs1 where
    r: "restore_shape_objs objs examples = Inr objs1" and
    a: "augment_objs rrm (rotate self) (rand_cov self) objs1 examples g = Inr (objs', g')"
    by blast
  note fr = restore_shape_objs_frame [OF r]
  note fa = augment_objs_frame [OF a]
  show ?thesis
  proof (intro conjI allI impI ballI)
    fix c assume "c \<notin> set examples"
    then show "objs' c = objs c" using fr fa by simp
  next
    fix c k assume k: "k \<noteq> ''R'' \<and> k \<noteq> ''R_orig''"
    then have "dict_get (objs' c) k = dict_get (objs1 c) k" using fa by blast
    also have "\<dots> = dict_get (objs c) k" using fr k by blast
    finally show "dict_get (objs' c) k = dict_get (objs c) k" .
  next
    fix c assume "c \<in> set examples"
    then show "\<exists>r. dict_get (objs' c) ''R'' = Inr r" "\<exists>r. dict_get (objs' c) ''R_orig'' = Inr r"
      using fa by blast+
  next
    fix c assume h: "distinct examples \<and> \<not> rotate self" and c: "c \<in> set examples"
    then have "dict_get (objs' c) ''R_orig'' = dict_get (objs1 c) ''R''" using fa by blast
    also have "\<dots> = bindE (dict_get (objs c) ''R'') reshape_m1_3" using fr c by blast
    finally show "dict_get (objs' c) ''R_orig'' = bindE (dict_get (objs c) ''R'') reshape_m1_3" .
  qed
qed

theorem input_dicts_updated_in_place_witness:
  "collate_objs identity_rotation (no_augment 2) (\<lambda>a::nat. triangle) [0] rng0
     = Inr (triangle_batch, (\<lambda>a::nat. triangle)(0 := triangle_after), rng0\<lparr>pos := pos rng0 + 9\<rparr>) \<and>
   ((\<lambda>a::nat. triangle)(0 := triangle_after)) 1 = triangle \<and>
   dict_get (((\<lambda>a::nat. triangle)(0 := triangle_after)) 0) ''Z'' = dict_get triangle ''Z'' \<and>
   (\<exists>r. dict_get (((\<lambda>a::nat. triangle)(0 := triangle_after)) 0) ''R'' = Inr r) \<and>
   distinct [0::nat] \<and> \<not> rotate (no_augment 2) \<and>
   dict_get (((\<lambda>a::nat. triangle)(0 := triangle_after)) 0) ''R_orig''
     = bindE (dict_get triangle ''R'') reshape_m1_3"
proof -
  have c: "collate_objs identity_rotation (no_augment 2) (\<lambda>a::nat. triangle) [0] rng0
           = Inr (triangle_batch, (\<lambda>a::nat. triangle)(0 := triangle_after), rng0\<lparr>pos := pos rng0 + 9\<rparr>)"
    by (rule collate_objs_triangle)
  let ?after = "(\<lambda>a::nat. triangle)(0 := triangle_after)"
  note t = input_dicts_updated_in_place [OF c]
  note t1 = t [THEN conjunct1]
  note t2 = t [THEN conjunct2, THEN conjunct1]
  note t3 = t [THEN conjunct2, THEN conjunct2, THEN conjunct1]
  note t4 = t [THEN conjunct2, THEN conjunct2, THEN conjunct2]
  have o: "?after 1 = triangle"
    using t1 [rule_format, where a = 1] by simp
  have z: "dict_get (?after 0) ''Z'' = dict_get triangle ''Z''"
    using t2 [rule_format, where a = 0 and k = "''Z''"] by simp
  have d: "distinct [0::nat]" "\<not> rotate (no_augment 2)"
    by (simp_all add: no_augment_sel)
  have r: "\<exists>r. dict_get (?after 0) ''R'' = Inr r"
    using t3 by simp
  have ro: "dict_get (?after 0) ''R_orig'' = bindE (dict_get triangle ''R'') reshape_m1_3"
    using t4 d by simp
  show ?thesis
    using c o z r d ro by (intro conjI)
qed

text \<open>
  C9, as stated: two calls on identical input give identical output for every
  configuration. It fails with \<open>rand_cov = 1\<close>: the call draws its noise from the
  process-wide generator, so the second of two calls in a row continues where the first
  stopped. On two atoms at the origin the first call returns \<open>R = [1, ..., 6]\<close> and the
  second \<open>R = [7, ..., 12]\<close>. It fails in the same way with \<open>rotate = True\<close> and no
  noise when \<^verbatim>\<open>rand_rotation_matrix\<close> draws from that generator: with the source
  \<open>drawn_rotation\<close>, two atoms 2 apart come back at \<open>(-1, 0, 0)\<close> and \<open>(1, 0, 0)\<close>
  from the first call and at \<open>(1, 0, 0)\<close> and \<open>(-1, 0, 0)\<close> from the second.
\<close>

theorem ambient_randomness_counterexample:
  "collate_data identity_rotation noisy [coincident_pair] rng0
     = Inr (pair_batch noisy_R1, [pair_after noisy_R1], rng0\<lparr>pos := 6\<rparr>) \<and>
   collate_data identity_rotation noisy [coincident_pair] (rng0\<lparr>pos := 6\<rparr>)
     = Inr (pair_batch noisy_R2, [pair_after noisy_R2], rng0\<lparr>pos := 12\<rparr>) \<and>
   dict_get (example_fields (pair_batch noisy_R1)) ''R'' = Inr noisy_R1 \<and>
   dict_get (example_fields (pair_batch noisy_R2)) ''R'' = Inr noisy_R2 \<and>
   noisy_R1 \<noteq> noisy_R2 \<and>
   collate_data drawn_rotation rotating [spread_pair] rng0
     = Inr (turned_batch turned_R1, [turned_after turned_R1], rng0\<lparr>pos := 7\<rparr>) \<and>
   collate_data drawn_rotation rotating [spread_pair] (rng0\<lparr>pos := 7\<rparr>)
     = Inr (turned_batch turned_R2, [turned_after turned_R2], rng0\<lparr>pos := 14\<rparr>) \<and>
   dict_get (example_fields (turned_batch turned_R1)) ''R'' = Inr turned_R1 \<and>
   dict_get (example_fields (turned_batch turned_R2)) ''R'' = Inr turned_R2 \<and>
   turned_R1 \<noteq> turned_R2"
proof -
  have n: "noisy_R1 \<noteq> noisy_R2" by (simp add: noisy_R1_def noisy_R2_def)
  have t: "turned_R1 \<noteq> turned_R2" by (simp add: turned_R1_def turned_R2_def)
  have g: "dict_get (example_fields (pair_batch noisy_R1)) ''R'' = Inr noisy_R1"
    "dict_get (example_fields (pair_batch noisy_R2)) ''R'' = Inr noisy_R2"
    by (simp_all add: pair_batch_def pair_after_get)
  show ?thesis
    using collate_noisy_1 [of identity_rotation] collate_noisy_2 [of identity_rotation] g n
      collate_turned_1 collate_turned_2 turned_batch_get [of turned_R1]
      turned_batch_get [of turned_R2] t
    by (intro conjI)
qed


text \<open>
  C9, amended: with \<open>rand_cov = 0\<close>, and with \<open>rotate = False\<close> or a
  \<^verbatim>\<open>rand_rotation_matrix\<close> that returns the same matrix whatever the state of the
  generator, the returned dict and the updated records (or the exception) are the same
  for every state of the generator: two calls on inputs of equal content agree.
\<close>

theorem deterministic_without_noise:
  assumes "rand_cov self = 0" and "rotate self \<longrightarrow> (\<forall>g g'. fst (rrm g) = fst (rrm g'))"
  shows "map_sum id (\<lambda>(out, exs, g'). (out, exs)) (AtomsCollate_call post_fn rrm self examples g1)
         = map_sum id (\<lambda>(out, exs, g'). (out, exs)) (AtomsCollate_call post_fn rrm self examples g2)"
proof -
  let ?p = "\<lambda>r. map_sum id (\<lambda>(b, exs, g'). (b, exs)) r"
  have c: "?p (collate_data rrm self examples g1) = ?p (collate_data rrm self examples g2)"
    by (rule collate_data_same [OF assms])
  show ?thesis
  proof (cases "collate_data rrm self examples g1")
    case (Inl x)
    then have "collate_data rrm self examples g2 = Inl x"
      using c by (cases "collate_data rrm self examples g2") auto
    then show ?thesis using Inl by (simp add: AtomsCollate_call_def)
  next
    case (Inr p)
    obtain b exs h1 where p: "p = (b, exs, h1)" by (cases p)
    from c Inr p obtain h2 where "collate_data rrm self examples g2 = Inr (b, exs, h2)"
      by (cases "collate_data rrm self examples g2") auto
    then show ?thesis using Inr p by (simp add: AtomsCollate_call_def)
  qed
qed

theorem deterministic_without_noise_witness:
  "rand_cov rotating = 0 \<and>
   fst (identity_rotation rng0) = fst (identity_rotation (rng0\<lparr>pos := 7\<rparr>)) \<and>
   map_sum id (\<lambda>(out, exs, g'). (out, exs))
     (AtomsCollate_call id identity_rotation rotating [spread_pair] rng0)
   = map_sum id (\<lambda>(out, exs, g'). (out, exs))
       (AtomsCollate_call id identity_rotation rotating [spread_pair] (rng0\<lparr>pos := 7\<rparr>))"
proof -
  have v: "rand_cov rotating = 0" by (simp add: rotating_sel)
  have r: "rotate rotating \<longrightarrow> (\<forall>g g'. fst (identity_rotation g) = fst (identity_rotation g'))"
    by (simp add: identity_rotation_def)
  have f: "fst (identity_rotation rng0) = fst (identity_rotation (rng0\<lparr>pos := 7\<rparr>))"
    by (rule identity_rotation_const)
  show ?thesis
    using v f deterministic_without_noise [OF v r, of id "[spread_pair]" rng0 "rng0\<lparr>pos := 7\<rparr>"]
    by (intro conjI)
qed

text \<open>
  C7, as stated: a batch that contains a structure with zero atoms is rejected. It fails
  on the batch of an empty structure and two atoms: the call returns the graph of the two
  atoms, and \<open>batch_seg = [1, 1]\<close> assigns both atoms to the second structure.
\<close>

theorem zero_atoms_rejected_counterexample:
  "len_arr (NDArray DInt [0] []) = Inr 0 \<and>
   dict_get empty_structure ''Z'' = Inr (NDArray DInt [0] []) \<and>
   collate_data identity_rotation (no_augment 2) [empty_structure, coincident_pair] rng0
     = Inr (\<lparr>example_fields = mixed_fields, graph = pair_graph, batch_seg = [1, 1]\<rparr>,
            [empty_after, pair_after pair_zeros], rng0\<lparr>pos := pos rng0 + 6\<rparr>)"
proof -
  have "len_arr (NDArray DInt [0] []) = Inr 0"
    "dict_get empty_structure ''Z'' = Inr (NDArray DInt [0] [])"
    by (simp_all add: empty_structure_def dict_get_def len_arr_def)
  then show ?thesis
    using collate_mixed [of identity_rotation rng0] by (intro conjI)
qed

text \<open>
  C7, amended: the steps that handle one structure accept a structure with zero atoms.
  For every configuration and every generator state, \<^verbatim>\<open>_restore_shape\<close> and the
  augmentation round succeed on it and the second loop gives it the empty 0 by 0
  adjacency matrix; and \<^verbatim>\<open>_bmat_fast\<close> returns for a list with this matrix at any
  position what it returns for the list without it (given that the first matrix of the
  list has a row pointer array that starts with 0).
\<close>

theorem zero_atom_structure_accepted:
  assumes "dict_get e ''R'' = Inr R" and "flat R = []"
    and "dict_get e ''Z'' = Inr Z" and "len_arr Z = Inr 0"
    and "ms1 @ ms2 \<noteq> []"
    and "ms1 = [] \<longrightarrow> indptr (hd ms2) \<noteq> [] \<and> hd (indptr (hd ms2)) = 0"
  shows "(\<exists>e1 e2 g2. restore_one e = Inr e1 \<and>
            augment_one rrm rot cov e1 g = Inr (e2, g2) \<and>
            adjacency c e2 = Inr empty_adj) \<and>
         bmat_fast (ms1 @ empty_adj # ms2) = bmat_fast (ms1 @ ms2)"
proof -
  let ?e1 = "dict_set e ''R'' (NDArray (dtype_of R) [0, 3] [])"
  have r: "restore_one e = Inr ?e1"
    by (rule zero_atom_restore [OF assms(1,2)])
  have R1: "dict_get ?e1 ''R'' = Inr (NDArray (dtype_of R) [0, 3] [])"
    by (simp add: dict_get_dict_set)
  from zero_atom_augment [OF R1, of rrm rot cov g] obtain e2 g2 where
    a: "augment_one rrm rot cov ?e1 g = Inr (e2, g2)" and
    R2: "dict_get e2 ''R'' = Inr (NDArray DFloat [0, 3] [])" and
    Z2: "dict_get e2 ''Z'' = dict_get ?e1 ''Z''"
    by auto
  have Z: "dict_get e2 ''Z'' = Inr Z"
    using Z2 assms(3) by (simp add: dict_get_dict_set)
  have "adjacency c e2 = Inr empty_adj"
    by (rule zero_atom_adjacency [OF R2 _ Z assms(4)]) (simp add: len_arr_def)
  then show ?thesis
    using r a bmat_fast_skips_empty [OF assms(5,6)] by blast
qed

theorem zero_atom_structure_accepted_witness:
  "dict_get empty_structure ''R'' = Inr (NDArray DFloat [0] []) \<and>
   flat (NDArray DFloat [0] []) = [] \<and>
   dict_get empty_structure ''Z'' = Inr (NDArray DInt [0] []) \<and>
   len_arr (NDArray DInt [0] []) = Inr 0 \<and>
   [] @ [coincident_adj] \<noteq> [] \<and> indptr (hd [coincident_adj]) \<noteq> [] \<and>
   hd (indptr (hd [coincident_adj])) = 0 \<and>
   (\<exists>e1 e2 g2. restore_one empty_structure = Inr e1 \<and>
      augment_one identity_rotation True 1 e1 rng0 = Inr (e2, g2) \<and>
      adjacency 2 e2 = Inr empty_adj) \<and>
   bmat_fast ([] @ empty_adj # [coincident_adj]) = Inr coincident_adj"
proof -
  have a: "dict_get empty_structure ''R'' = Inr (NDArray DFloat [0] [])"
    "flat (NDArray DFloat [0] []) = []"
    "dict_get empty_structure ''Z'' = Inr (NDArray DInt [0] [])"
    "len_arr (NDArray DInt [0] []) = Inr 0"
    by (simp_all add: empty_structure_def dict_get_def len_arr_def)
  have b: "[] @ [coincident_adj] \<noteq> []"
    "([]::bool csr list) = [] \<longrightarrow>
       indptr (hd [coincident_adj]) \<noteq> [] \<and> hd (indptr (hd [coincident_adj])) = 0"
    by (simp_all add: coincident_adj_def)
  show ?thesis
    using a b zero_atom_structure_accepted [OF a b, of identity_rotation True 1 rng0 2]
    by (simp add: pair_bmat)
qed

end
